theory Spec2Isabelle
  imports Main "HOL-Library.Product_Lexorder" "HOL-Library.Option_ord" "HOL-Library.Multiset"
begin

section \<open>Data model\<close>

text \<open>
  The three record kinds kept by the store, with the fields the handlers of
  \<^verbatim>\<open>routes/api/index.js\<close> and \<^verbatim>\<open>routes/web/index.js\<close> read and write.
  Row ids and positions are JavaScript numbers that the handlers only accept when finite;
  they are integers here. User ids are strings, the empty string being the falsy value.
  Strings are sequences of 8-bit code units (Latin-1). Dates are milliseconds since the
  epoch, as \<^verbatim>\<open>getTime()\<close> reads them. The status of an invite is the string the
  handlers compare it with.
\<close>

record taskList =
  l_id :: int
  l_userId :: string
  l_name :: string
  l_slug :: string
  l_position :: int

record task =
  t_id :: int
  t_userId :: string
  t_listId :: int
  t_title :: string
  t_description :: "string option"
  t_dueDate :: "int option"
  t_recurringConfig :: "string option"
  t_completed :: bool
  t_starred :: bool
  t_position :: int

record invite =
  i_id :: int
  i_listId :: int
  i_inviterId :: string
  i_email :: string
  i_token :: string
  i_role :: string
  i_status :: string
  i_createdAt :: "int option"

text \<open>
  Modelled from the spec: the Persistence Gateway (the object-relational mapper and its
  schema are not part of the sources). The store holds the rows of the three tables in
  insertion order and one auto-increment counter per table.
\<close>

record store =
  lists :: "taskList list"
  tasks :: "task list"
  invites :: "invite list"
  next_list_id :: int
  next_task_id :: int
  next_invite_id :: int

definition empty_store :: store where
  "empty_store = \<lparr>lists = [], tasks = [], invites = [],
     next_list_id = 1, next_task_id = 1, next_invite_id = 1\<rparr>"

record user =
  user_id :: string
  user_email :: string

record request =
  req_user :: "user option"
  req_userId :: string
  req_sessionUserId :: string

datatype body =
    ErrorBody string
  | MissingBody string "int list"
  | OkBody
  | DeletedBody nat
  | ListBody taskList
  | ListsBody "taskList list"
  | TaskBody task
  | TasksBody "task list"
  | BootstrapBody "taskList list" "task list" "invite list"
  | SentBody string int string string
  | ErrorPage string
  | SharePage string "taskList option"
  | IndexPage string

type_synonym response = "nat \<times> body"

section \<open>Strings\<close>

definition is_space :: "char \<Rightarrow> bool" where
  "is_space c = (c \<in> set [CHR 0x09, CHR 0x0A, CHR 0x0B, CHR 0x0C, CHR 0x0D, CHR 0x20, CHR 0xA0])"

definition is_hyphen :: "char \<Rightarrow> bool" where
  "is_hyphen c = (c = CHR ''-'')"

definition is_slug_char :: "char \<Rightarrow> bool" where
  "is_slug_char c = (let n = (of_char c :: nat) in
     (97 \<le> n \<and> n \<le> 122) \<or> (48 \<le> n \<and> n \<le> 57) \<or> c = CHR ''-'')"

definition lower_char :: "char \<Rightarrow> char" where
  "lower_char c = (let n = (of_char c :: nat) in
     if (65 \<le> n \<and> n \<le> 90) \<or> (192 \<le> n \<and> n \<le> 222 \<and> n \<noteq> 215)
     then char_of (n + 32) else c)"

definition toLowerCase :: "string \<Rightarrow> string" where
  "toLowerCase s = map lower_char s"

definition trim :: "string \<Rightarrow> string" where
  "trim s = rev (dropWhile is_space (rev (dropWhile is_space s)))"

text \<open>\<^verbatim>\<open>s.replace(/C+/g, "-")\<close> for a character class \<open>C\<close>: every maximal run of
  characters of the class becomes one hyphen.\<close>

function replace_runs :: "(char \<Rightarrow> bool) \<Rightarrow> string \<Rightarrow> string" where
  "replace_runs p [] = []"
| "replace_runs p (c # cs) =
     (if p c then CHR ''-'' # replace_runs p (dropWhile p cs) else c # replace_runs p cs)"
  by pat_completeness auto
termination
  by (relation "measure (\<lambda>(p, s). length s)")
     (auto simp: less_Suc_eq_le length_dropWhile_le)

text \<open>\<^verbatim>\<open>s.replace(/[^a-z0-9-]/g, "-")\<close>.\<close>

definition replace_non_slug :: "string \<Rightarrow> string" where
  "replace_non_slug s = map (\<lambda>c. if is_slug_char c then c else CHR ''-'') s"

text \<open>\<^verbatim>\<open>s.replace(/^-|-$/g, "")\<close>: the scan removes a hyphen at index 0, then a
  hyphen at the last index when one is left there.\<close>

definition strip_edge_hyphens :: "string \<Rightarrow> string" where
  "strip_edge_hyphens s =
     (let s1 = (case s of [] \<Rightarrow> [] | c # cs \<Rightarrow> if c = CHR ''-'' then cs else s)
      in if s1 \<noteq> [] \<and> last s1 = CHR ''-'' then butlast s1 else s1)"

text \<open>Decimal rendering of the numeric suffix inside the template literal.\<close>

definition digit_char :: "nat \<Rightarrow> char" where
  "digit_char n = char_of (48 + n)"

fun string_of_nat :: "nat \<Rightarrow> string" where
  "string_of_nat n =
     (if n < 10 then [digit_char n]
      else string_of_nat (n div 10) @ [digit_char (n mod 10)])"

declare string_of_nat.simps [simp del]

definition digit_val :: "char \<Rightarrow> nat" where
  "digit_val c = of_char c - 48"

definition nat_of_string :: "string \<Rightarrow> nat" where
  "nat_of_string s = foldl (\<lambda>a c. 10 * a + digit_val c) 0 s"

definition suffixed :: "string \<Rightarrow> nat \<Rightarrow> string" where
  "suffixed baseSlug suffix = baseSlug @ ''-'' @ string_of_nat suffix"

section \<open>Persistence Gateway operations\<close>

text \<open>
  Modelled from the spec: the gateway calls the handlers make (\<^verbatim>\<open>findUnique\<close>,
  \<^verbatim>\<open>findFirst\<close>, \<^verbatim>\<open>findMany\<close>, \<^verbatim>\<open>count\<close>, \<^verbatim>\<open>create\<close>, \<^verbatim>\<open>createMany\<close>,
  \<^verbatim>\<open>update\<close>, \<^verbatim>\<open>delete\<close>, \<^verbatim>\<open>deleteMany\<close>, \<^verbatim>\<open>$transaction\<close>), each on the
  table and filter it is called with. A created row gets the next id of its table; a
  created invite gets the time of its creation as \<open>createdAt\<close>, which the handler does not
  set itself. An update or delete by id acts on the rows with that id.
\<close>

definition findUnique_invite :: "string \<Rightarrow> store \<Rightarrow> invite option" where
  "findUnique_invite token d = find (\<lambda>i. i_token i = token) (invites d)"

definition findUnique_list :: "int \<Rightarrow> store \<Rightarrow> taskList option" where
  "findUnique_list lid d = find (\<lambda>l. l_id l = lid) (lists d)"

definition findFirst_list :: "int \<Rightarrow> string \<Rightarrow> store \<Rightarrow> taskList option" where
  "findFirst_list lid userId d = find (\<lambda>l. l_id l = lid \<and> l_userId l = userId) (lists d)"

definition findFirst_list_slug :: "string \<Rightarrow> string \<Rightarrow> store \<Rightarrow> taskList option" where
  "findFirst_list_slug userId slug d =
     find (\<lambda>l. l_userId l = userId \<and> l_slug l = slug) (lists d)"

definition findFirst_task :: "int \<Rightarrow> string \<Rightarrow> store \<Rightarrow> task option" where
  "findFirst_task tid userId d = find (\<lambda>t. t_id t = tid \<and> t_userId t = userId) (tasks d)"

definition count_lists :: "string \<Rightarrow> store \<Rightarrow> nat" where
  "count_lists userId d = length (filter (\<lambda>l. l_userId l = userId) (lists d))"

definition count_tasks :: "string \<Rightarrow> int \<Rightarrow> store \<Rightarrow> nat" where
  "count_tasks userId lid d =
     length (filter (\<lambda>t. t_userId t = userId \<and> t_listId t = lid) (tasks d))"

definition findMany_lists :: "string \<Rightarrow> store \<Rightarrow> taskList list" where
  "findMany_lists userId d =
     sort_key (\<lambda>l. (l_position l, l_id l)) (filter (\<lambda>l. l_userId l = userId) (lists d))"

definition findMany_tasks :: "string \<Rightarrow> int option \<Rightarrow> store \<Rightarrow> task list" where
  "findMany_tasks userId lid d =
     sort_key (\<lambda>t. (t_listId t, t_position t, t_id t))
       (filter (\<lambda>t. t_userId t = userId \<and> (case lid of None \<Rightarrow> True | Some l \<Rightarrow> t_listId t = l))
          (tasks d))"

definition findMany_invites :: "string \<Rightarrow> store \<Rightarrow> invite list" where
  "findMany_invites inviterId d =
     sort_key (\<lambda>i. (i_listId i, i_createdAt i, i_id i))
       (filter (\<lambda>i. i_inviterId i = inviterId) (invites d))"

definition findMany_tasks_of_list :: "int \<Rightarrow> store \<Rightarrow> task list" where
  "findMany_tasks_of_list lid d =
     sort_key (\<lambda>t. (t_position t, t_id t)) (filter (\<lambda>t. t_listId t = lid) (tasks d))"

definition create_list :: "string \<Rightarrow> string \<Rightarrow> string \<Rightarrow> int \<Rightarrow> store \<Rightarrow> taskList \<times> store" where
  "create_list userId name slug pos d =
     (let row = \<lparr>l_id = next_list_id d, l_userId = userId, l_name = name, l_slug = slug,
                 l_position = pos\<rparr>
      in (row, d\<lparr>lists := lists d @ [row], next_list_id := next_list_id d + 1\<rparr>))"

definition create_task :: "task \<Rightarrow> store \<Rightarrow> task \<times> store" where
  "create_task data d =
     (let row = data\<lparr>t_id := next_task_id d\<rparr>
      in (row, d\<lparr>tasks := tasks d @ [row], next_task_id := next_task_id d + 1\<rparr>))"

definition createMany_tasks :: "task list \<Rightarrow> store \<Rightarrow> store" where
  "createMany_tasks rows d = foldl (\<lambda>d' data. snd (create_task data d')) d rows"

definition create_invite ::
  "int \<Rightarrow> int \<Rightarrow> string \<Rightarrow> string \<Rightarrow> string \<Rightarrow> string \<Rightarrow> string \<Rightarrow> store \<Rightarrow> invite \<times> store" where
  "create_invite now lid inviterId email token role status d =
     (let row = \<lparr>i_id = next_invite_id d, i_listId = lid, i_inviterId = inviterId,
                 i_email = email, i_token = token, i_role = role, i_status = status,
                 i_createdAt = Some now\<rparr>
      in (row, d\<lparr>invites := invites d @ [row], next_invite_id := next_invite_id d + 1\<rparr>))"

definition update_invite_status :: "int \<Rightarrow> string \<Rightarrow> store \<Rightarrow> store" where
  "update_invite_status iid status d =
     d\<lparr>invites := map (\<lambda>i. if i_id i = iid then i\<lparr>i_status := status\<rparr> else i) (invites d)\<rparr>"

definition update_list :: "int \<Rightarrow> (taskList \<Rightarrow> taskList) \<Rightarrow> store \<Rightarrow> store" where
  "update_list lid f d = d\<lparr>lists := map (\<lambda>l. if l_id l = lid then f l else l) (lists d)\<rparr>"

definition update_task :: "int \<Rightarrow> (task \<Rightarrow> task) \<Rightarrow> store \<Rightarrow> store" where
  "update_task tid f d = d\<lparr>tasks := map (\<lambda>t. if t_id t = tid then f t else t) (tasks d)\<rparr>"

definition delete_list :: "int \<Rightarrow> store \<Rightarrow> store" where
  "delete_list lid d = d\<lparr>lists := filter (\<lambda>l. l_id l \<noteq> lid) (lists d)\<rparr>"

definition delete_task :: "int \<Rightarrow> store \<Rightarrow> store" where
  "delete_task tid d = d\<lparr>tasks := filter (\<lambda>t. t_id t \<noteq> tid) (tasks d)\<rparr>"

definition deleteMany_tasks :: "(task \<Rightarrow> bool) \<Rightarrow> store \<Rightarrow> nat \<times> store" where
  "deleteMany_tasks p d =
     (length (filter p (tasks d)), d\<lparr>tasks := filter (\<lambda>t. \<not> p t) (tasks d)\<rparr>)"

text \<open>
  A unit of work either fails or returns a value with the store it leaves. The
  transaction commits that store, or keeps the one it started from.
\<close>

datatype tx_step = CountLists | ProbeSlug | CreateList | CreateTasks | UpdateInvite

datatype gw_error = GatewayFailure tx_step

definition transaction ::
  "(store \<Rightarrow> gw_error + 'a \<times> store) \<Rightarrow> store \<Rightarrow> (gw_error + 'a) \<times> store" where
  "transaction work d = (case work d of Inl e \<Rightarrow> (Inl e, d) | Inr (r, d') \<Rightarrow> (Inr r, d'))"

section \<open>Redeeming an invitation: \<^verbatim>\<open>GET /share/accept\<close>\<close>

text \<open>
  The handler of \<^verbatim>\<open>routes/web/index.js\<close>. \<open>now\<close> is the clock read by \<^verbatim>\<open>new Date()\<close>,
  \<open>token\<close> the query parameter as a string (empty when absent). A gateway call that raises
  ends the handler; the router hands the error to the host application, whose answer is
  modelled from the spec: the generic internal-error response, status 500.
\<close>

definition getUserId :: "request \<Rightarrow> string option" where
  "getUserId req =
     (let a = (case req_user req of None \<Rightarrow> '''' | Some u \<Rightarrow> user_id u)
      in if a \<noteq> '''' then Some a
         else if req_userId req \<noteq> '''' then Some (req_userId req)
         else if req_sessionUserId req \<noteq> '''' then Some (req_sessionUserId req)
         else None)"

definition INVITE_MAX_AGE_DAYS :: int where
  "INVITE_MAX_AGE_DAYS = 30"

definition renderInviteError :: "nat \<Rightarrow> string \<Rightarrow> response" where
  "renderInviteError statusCode message = (statusCode, ErrorPage message)"

definition derive_slug :: "string \<Rightarrow> string" where
  "derive_slug name =
     strip_edge_hyphens
       (replace_runs is_hyphen
          (replace_non_slug
             (replace_runs is_space
                (toLowerCase (if name \<noteq> '''' then name else ''list'')))))"

definition baseSlug_of :: "taskList \<Rightarrow> string" where
  "baseSlug_of sourceList =
     (let s = (if l_slug sourceList \<noteq> '''' then l_slug sourceList
               else derive_slug (l_name sourceList))
      in if s \<noteq> '''' then s else ''list'')"

definition user_slugs :: "string \<Rightarrow> store \<Rightarrow> string list" where
  "user_slugs userId d = map l_slug (filter (\<lambda>l. l_userId l = userId) (lists d))"

text \<open>The \<^verbatim>\<open>while (true)\<close> loop probing the recipient's lists for the slug.\<close>

function uniqueSlug_loop :: "store \<Rightarrow> string \<Rightarrow> string \<Rightarrow> string \<Rightarrow> nat \<Rightarrow> string" where
  "uniqueSlug_loop d userId baseSlug uniqueSlug suffix =
     (if findFirst_list_slug userId uniqueSlug d \<noteq> None
      then uniqueSlug_loop d userId baseSlug (suffixed baseSlug suffix) (suffix + 1)
      else uniqueSlug)"
  by pat_completeness auto

definition pending_conflicts :: "string list \<Rightarrow> string \<Rightarrow> nat \<Rightarrow> nat set" where
  "pending_conflicts taken b n = {k. n \<le> k \<and> suffixed b k \<in> set taken}"

lemma digit_val_digit_char: "n < 10 \<Longrightarrow> digit_val (digit_char n) = n"
  by (simp add: digit_val_def digit_char_def)

lemma nat_of_string_of_nat: "nat_of_string (string_of_nat n) = n"
proof (induction n rule: string_of_nat.induct)
  case (1 n)
  show ?case
  proof (cases "n < 10")
    case True
    then show ?thesis
      by (simp add: string_of_nat.simps [of n] nat_of_string_def digit_val_digit_char)
  next
    case False
    with 1 have "nat_of_string (string_of_nat (n div 10)) = n div 10" by simp
    with False show ?thesis
      by (simp add: string_of_nat.simps [of n] nat_of_string_def digit_val_digit_char)
  qed
qed

lemma inj_string_of_nat: "inj string_of_nat"
  by (rule inj_on_inverseI [where g = nat_of_string]) (rule nat_of_string_of_nat)

lemma inj_suffixed: "inj (suffixed b)"
  using inj_string_of_nat by (auto simp: inj_def suffixed_def)

lemma finite_pending_conflicts: "finite (pending_conflicts taken b n)"
proof -
  have "pending_conflicts taken b n \<subseteq> suffixed b -` set taken"
    by (auto simp: pending_conflicts_def)
  moreover have "finite (suffixed b -` set taken)"
    by (rule finite_vimageI) (simp_all add: inj_suffixed)
  ultimately show ?thesis by (rule finite_subset)
qed

lemma pending_conflicts_step:
  "pending_conflicts taken b n =
     (if suffixed b n \<in> set taken then insert n (pending_conflicts taken b (Suc n))
      else pending_conflicts taken b (Suc n))"
  by (auto simp: pending_conflicts_def Suc_le_eq le_less)

lemma find_None_conv: "(find p xs = None) = (\<forall>x\<in>set xs. \<not> p x)"
  by (induction xs) auto

lemma slug_conflict_iff:
  "(findFirst_list_slug userId slug d \<noteq> None) = (slug \<in> set (user_slugs userId d))"
  by (auto simp: findFirst_list_slug_def user_slugs_def find_None_conv)

termination uniqueSlug_loop
proof (relation "measure (\<lambda>(d, u, b, s, n).
         2 * card (pending_conflicts (user_slugs u d) b n)
         + (if s \<in> set (user_slugs u d) then 1 else 0))")
  show "wf (measure (\<lambda>(d, u, b, s, n).
         2 * card (pending_conflicts (user_slugs u d) b n)
         + (if s \<in> set (user_slugs u d) then 1 else 0)))"
    by simp
next
  fix d :: store and userId baseSlug uniqueSlug :: string and suffix :: nat
  assume "findFirst_list_slug userId uniqueSlug d \<noteq> None"
  then have c: "uniqueSlug \<in> set (user_slugs userId d)"
    by (simp only: slug_conflict_iff)
  have n: "suffix \<notin> pending_conflicts (user_slugs userId d) baseSlug (Suc suffix)"
    by (simp add: pending_conflicts_def)
  show "((d, userId, baseSlug, suffixed baseSlug suffix, suffix + 1),
         (d, userId, baseSlug, uniqueSlug, suffix))
        \<in> measure (\<lambda>(d, u, b, s, n).
         2 * card (pending_conflicts (user_slugs u d) b n)
         + (if s \<in> set (user_slugs u d) then 1 else 0))"
    using c n finite_pending_conflicts [of "user_slugs userId d" baseSlug "Suc suffix"]
    by (simp add: pending_conflicts_step [of "user_slugs userId d" baseSlug suffix])
qed

declare uniqueSlug_loop.simps [simp del]

definition clone_task :: "string \<Rightarrow> int \<Rightarrow> task \<Rightarrow> task" where
  "clone_task userId lid t =
     \<lparr>t_id = 0, t_userId = userId, t_listId = lid, t_title = t_title t,
      t_description = t_description t, t_dueDate = t_dueDate t,
      t_recurringConfig = t_recurringConfig t, t_completed = t_completed t,
      t_starred = t_starred t, t_position = t_position t\<rparr>"

text \<open>
  The unit of work handed to \<^verbatim>\<open>prisma.$transaction\<close>. The oracle \<open>fault\<close> says which
  gateway calls raise; a raise leaves the unit of work at once.
\<close>

definition clone_tx ::
  "(tx_step \<Rightarrow> bool) \<Rightarrow> string \<Rightarrow> taskList \<Rightarrow> task list \<Rightarrow> string \<Rightarrow> invite \<Rightarrow> store
     \<Rightarrow> gw_error + taskList \<times> store" where
  "clone_tx fault userId sourceList tasksToClone baseSlug invite d =
     (if fault CountLists then Inl (GatewayFailure CountLists) else
      let listPosition = int (count_lists userId d) in
      if fault ProbeSlug then Inl (GatewayFailure ProbeSlug) else
      let uniqueSlug = uniqueSlug_loop d userId baseSlug baseSlug 2 in
      if fault CreateList then Inl (GatewayFailure CreateList) else
      let (clonedList, d1) = create_list userId (l_name sourceList) uniqueSlug listPosition d in
      if tasksToClone \<noteq> [] \<and> fault CreateTasks then Inl (GatewayFailure CreateTasks) else
      let d2 = (if tasksToClone \<noteq> []
                then createMany_tasks (map (clone_task userId (l_id clonedList)) tasksToClone) d1
                else d1) in
      if fault UpdateInvite then Inl (GatewayFailure UpdateInvite) else
      Inr (clonedList, update_invite_status (i_id invite) ''accepted'' d2))"

definition expired :: "int \<Rightarrow> invite \<Rightarrow> bool" where
  "expired now invite =
     (case i_createdAt invite of
        None \<Rightarrow> False
      | Some createdAt \<Rightarrow> now - createdAt > INVITE_MAX_AGE_DAYS * 24 * 60 * 60 * 1000)"

definition currentEmail_of :: "request \<Rightarrow> string" where
  "currentEmail_of req =
     trim (toLowerCase (case req_user req of None \<Rightarrow> '''' | Some u \<Rightarrow> user_email u))"

definition invitedEmail_of :: "invite \<Rightarrow> string" where
  "invitedEmail_of invite = trim (toLowerCase (i_email invite))"

definition share_accept ::
  "int \<Rightarrow> (tx_step \<Rightarrow> bool) \<Rightarrow> request \<Rightarrow> string \<Rightarrow> store \<Rightarrow> response \<times> store" where
  "share_accept now fault req token d =
     (if token = '''' then (renderInviteError 400 ''Missing invitation'', d) else
      (case findUnique_invite token d of
        None \<Rightarrow> (renderInviteError 404 ''Invitation not found'', d)
      | Some invite \<Rightarrow>
      (if i_status invite = ''revoked'' then (renderInviteError 410 ''Invitation revoked'', d) else
      if i_status invite = ''accepted''
      then ((409, SharePage ''Invitation already accepted'' None), d) else
      (case getUserId req of
        None \<Rightarrow> (renderInviteError 401 ''Sign in required'', d)
      | Some userId \<Rightarrow>
      (case findUnique_list (i_listId invite) d of
        None \<Rightarrow> (renderInviteError 410 ''List unavailable'',
                 update_invite_status (i_id invite) ''revoked'' d)
      | Some sourceList \<Rightarrow>
      (let currentEmail = currentEmail_of req; invitedEmail = invitedEmail_of invite in
      if currentEmail = '''' \<or> currentEmail \<noteq> invitedEmail
      then (renderInviteError 403 ''Sign in with the invited email'', d) else
      if expired now invite
      then (renderInviteError 410 ''Invitation expired'',
            update_invite_status (i_id invite) ''revoked'' d) else
      (let tasksToClone = findMany_tasks_of_list (l_id sourceList) d;
           baseSlug = baseSlug_of sourceList in
      (case transaction (clone_tx fault userId sourceList tasksToClone baseSlug invite) d of
        (Inl e, d') \<Rightarrow> ((500, ErrorBody ''Internal server error''), d')
      | (Inr createdList, d') \<Rightarrow>
          ((200, SharePage ''Invitation accepted'' (Some createdList)), d')))))))))"

section \<open>List and task handlers\<close>

text \<open>
  The handlers of \<^verbatim>\<open>routes/api/index.js\<close>; \<^verbatim>\<open>routes/web/index.js\<close> registers the same
  bodies without the logging, and its bootstrap leaves the invites out. A body field is
  given as the value the handler makes of it: \<open>None\<close> for a name, title or slug that is
  not a string, \<open>None\<close> for a number that \<^verbatim>\<open>Number.isFinite\<close> refuses.
\<close>

definition unauthorized :: response where
  "unauthorized = (401, ErrorBody ''Unauthorized'')"

definition bootstrap :: "request \<Rightarrow> store \<Rightarrow> response \<times> store" where
  "bootstrap req d =
     (case getUserId req of
        None \<Rightarrow> (unauthorized, d)
      | Some userId \<Rightarrow>
          ((200, BootstrapBody (findMany_lists userId d) (findMany_tasks userId None d)
                   (findMany_invites userId d)), d))"

definition web_bootstrap :: "request \<Rightarrow> store \<Rightarrow> response \<times> store" where
  "web_bootstrap req d =
     (case getUserId req of
        None \<Rightarrow> (unauthorized, d)
      | Some userId \<Rightarrow>
          ((200, BootstrapBody (findMany_lists userId d) (findMany_tasks userId None d) []), d))"

definition lists_list :: "request \<Rightarrow> store \<Rightarrow> response \<times> store" where
  "lists_list req d =
     (case getUserId req of
        None \<Rightarrow> (unauthorized, d)
      | Some userId \<Rightarrow> ((200, ListsBody (findMany_lists userId d)), d))"

definition lists_create ::
  "request \<Rightarrow> string option \<Rightarrow> string option \<Rightarrow> store \<Rightarrow> response \<times> store" where
  "lists_create req name slug d =
     (case getUserId req of
        None \<Rightarrow> (unauthorized, d)
      | Some userId \<Rightarrow>
          (if name = None \<or> name = Some '''' then ((400, ErrorBody ''name is required''), d)
           else
             (let n = the name;
                  count = int (count_lists userId d);
                  s = (if slug \<noteq> None \<and> slug \<noteq> Some '''' then the slug
                       else replace_runs is_space (toLowerCase n));
                  (created, d') = create_list userId n s count d
              in ((201, ListBody created), d'))))"

definition lists_put ::
  "request \<Rightarrow> int option \<Rightarrow> string option \<Rightarrow> string option \<Rightarrow> store \<Rightarrow> response \<times> store" where
  "lists_put req lid name slug d =
     (case getUserId req of
        None \<Rightarrow> (unauthorized, d)
      | Some userId \<Rightarrow>
      (case lid of
        None \<Rightarrow> ((400, ErrorBody ''Invalid id''), d)
      | Some i \<Rightarrow>
      (case findFirst_list i userId d of
        None \<Rightarrow> ((404, ErrorBody ''List not found''), d)
      | Some existing \<Rightarrow>
          (let updated = existing\<lparr>
                 l_name := (case name of Some n \<Rightarrow> n | None \<Rightarrow> l_name existing),
                 l_slug := (case slug of Some s \<Rightarrow> s | None \<Rightarrow> l_slug existing)\<rparr>
           in ((200, ListBody updated),
               update_list i (\<lambda>l. l\<lparr>l_name := l_name updated, l_slug := l_slug updated\<rparr>) d)))))"

definition lists_delete :: "request \<Rightarrow> int option \<Rightarrow> store \<Rightarrow> response \<times> store" where
  "lists_delete req lid d =
     (case getUserId req of
        None \<Rightarrow> (unauthorized, d)
      | Some userId \<Rightarrow>
      (case lid of
        None \<Rightarrow> ((400, ErrorBody ''Invalid id''), d)
      | Some i \<Rightarrow>
      (case findFirst_list i userId d of
        None \<Rightarrow> ((404, ErrorBody ''List not found''), d)
      | Some existing \<Rightarrow>
          ((200, OkBody),
           delete_list i
             (snd (deleteMany_tasks (\<lambda>t. t_listId t = i \<and> t_userId t = userId) d))))))"

text \<open>The array of updates handed to \<^verbatim>\<open>prisma.$transaction\<close>, run in order.\<close>

definition reorder_lists :: "int list \<Rightarrow> store \<Rightarrow> store" where
  "reorder_lists ids d =
     foldl (\<lambda>d' (index, i). update_list i (\<lambda>l. l\<lparr>l_position := int index\<rparr>) d') d
       (enumerate 0 ids)"

definition reorder_tasks :: "int \<Rightarrow> int list \<Rightarrow> store \<Rightarrow> store" where
  "reorder_tasks parsedListId ids d =
     foldl (\<lambda>d' (index, i).
              update_task i (\<lambda>t. t\<lparr>t_listId := parsedListId, t_position := int index\<rparr>) d') d
       (enumerate 0 ids)"

definition lists_order :: "request \<Rightarrow> int option list option \<Rightarrow> store \<Rightarrow> response \<times> store" where
  "lists_order req listOrder d =
     (case getUserId req of
        None \<Rightarrow> (unauthorized, d)
      | Some userId \<Rightarrow>
      (if listOrder = None \<or> None \<in> set (the listOrder)
       then ((400, ErrorBody ''listOrder must be an array of ids''), d)
       else
         (let ids = map the (the listOrder);
              existingIds = map l_id
                (filter (\<lambda>l. l_userId l = userId \<and> l_id l \<in> set ids) (lists d));
              missing = filter (\<lambda>i. i \<notin> set existingIds) ids
          in if missing \<noteq> []
             then ((400, MissingBody ''Some lists do not exist or do not belong to user'' missing),
                   d)
             else ((200, OkBody), reorder_lists ids d))))"

definition tasks_list :: "request \<Rightarrow> int option option \<Rightarrow> store \<Rightarrow> response \<times> store" where
  "tasks_list req listIdParam d =
     (case getUserId req of
        None \<Rightarrow> (unauthorized, d)
      | Some userId \<Rightarrow>
      (case listIdParam of
        None \<Rightarrow> ((200, TasksBody (findMany_tasks userId None d)), d)
      | Some None \<Rightarrow> ((400, ErrorBody ''Invalid listId''), d)
      | Some (Some l) \<Rightarrow> ((200, TasksBody (findMany_tasks userId (Some l) d)), d)))"

record task_create_body =
  c_listId :: "int option"
  c_title :: "string option"
  c_description :: "string option"
  c_dueDate :: "int option"
  c_recurringConfig :: "string option"
  c_starred :: bool

definition tasks_create :: "request \<Rightarrow> task_create_body \<Rightarrow> store \<Rightarrow> response \<times> store" where
  "tasks_create req b d =
     (case getUserId req of
        None \<Rightarrow> (unauthorized, d)
      | Some userId \<Rightarrow>
      (case c_listId b of
        None \<Rightarrow> ((400, ErrorBody ''listId is required and must be a number''), d)
      | Some parsedListId \<Rightarrow>
      (if c_title b = None \<or> c_title b = Some '''' then ((400, ErrorBody ''title is required''), d)
       else
      (case findFirst_list parsedListId userId d of
        None \<Rightarrow> ((404, ErrorBody ''List not found''), d)
      | Some list \<Rightarrow>
          (let countInList = int (count_tasks userId parsedListId d);
               (created, d') = create_task
                 \<lparr>t_id = 0, t_userId = userId, t_listId = parsedListId,
                  t_title = the (c_title b), t_description = c_description b,
                  t_dueDate = c_dueDate b, t_recurringConfig = c_recurringConfig b,
                  t_completed = False, t_starred = c_starred b, t_position = countInList\<rparr> d
           in ((201, TaskBody created), d'))))))"

text \<open>For an update, \<open>None\<close> is a field the body does not have (\<^verbatim>\<open>undefined\<close>).\<close>

record task_update_body =
  u_listId :: "int option option"
  u_title :: "string option"
  u_description :: "string option option"
  u_dueDate :: "int option option"
  u_recurringConfig :: "string option option"
  u_completed :: "bool option"
  u_starred :: "bool option"
  u_position :: "int option option"

definition apply_task_update :: "task_update_body \<Rightarrow> task \<Rightarrow> task" where
  "apply_task_update b t =
     t\<lparr>t_listId := (case u_listId b of Some (Some l) \<Rightarrow> l | _ \<Rightarrow> t_listId t),
       t_title := (case u_title b of Some s \<Rightarrow> s | None \<Rightarrow> t_title t),
       t_description := (case u_description b of Some x \<Rightarrow> x | None \<Rightarrow> t_description t),
       t_dueDate := (case u_dueDate b of Some x \<Rightarrow> x | None \<Rightarrow> t_dueDate t),
       t_recurringConfig :=
         (case u_recurringConfig b of Some x \<Rightarrow> x | None \<Rightarrow> t_recurringConfig t),
       t_completed := (case u_completed b of Some x \<Rightarrow> x | None \<Rightarrow> t_completed t),
       t_starred := (case u_starred b of Some x \<Rightarrow> x | None \<Rightarrow> t_starred t),
       t_position := (case u_position b of Some (Some p) \<Rightarrow> p | _ \<Rightarrow> t_position t)\<rparr>"

definition tasks_put ::
  "request \<Rightarrow> int option \<Rightarrow> task_update_body \<Rightarrow> store \<Rightarrow> response \<times> store" where
  "tasks_put req tid b d =
     (case getUserId req of
        None \<Rightarrow> (unauthorized, d)
      | Some userId \<Rightarrow>
      (case tid of
        None \<Rightarrow> ((400, ErrorBody ''Invalid id''), d)
      | Some i \<Rightarrow>
      (case findFirst_task i userId d of
        None \<Rightarrow> ((404, ErrorBody ''Task not found''), d)
      | Some existing \<Rightarrow>
          (if u_listId b = Some None then ((400, ErrorBody ''Invalid listId''), d)
           else if u_position b = Some None then ((400, ErrorBody ''Invalid position''), d)
           else ((200, TaskBody (apply_task_update b existing)),
                 update_task i (apply_task_update b) d)))))"

definition tasks_delete :: "request \<Rightarrow> int option \<Rightarrow> store \<Rightarrow> response \<times> store" where
  "tasks_delete req tid d =
     (case getUserId req of
        None \<Rightarrow> (unauthorized, d)
      | Some userId \<Rightarrow>
      (case tid of
        None \<Rightarrow> ((400, ErrorBody ''Invalid id''), d)
      | Some i \<Rightarrow>
      (case findFirst_task i userId d of
        None \<Rightarrow> ((404, ErrorBody ''Task not found''), d)
      | Some existing \<Rightarrow> ((200, OkBody), delete_task i d))))"

definition tasks_order ::
  "request \<Rightarrow> int option \<Rightarrow> int option list option \<Rightarrow> store \<Rightarrow> response \<times> store" where
  "tasks_order req listId taskOrder d =
     (case getUserId req of
        None \<Rightarrow> (unauthorized, d)
      | Some userId \<Rightarrow>
      (case listId of
        None \<Rightarrow> ((400, ErrorBody ''listId is required and must be a number''), d)
      | Some parsedListId \<Rightarrow>
      (if taskOrder = None \<or> None \<in> set (the taskOrder)
       then ((400, ErrorBody ''taskOrder must be an array of ids''), d)
       else
         (let ids = map the (the taskOrder);
              existingIds = map t_id
                (filter (\<lambda>t. t_userId t = userId \<and> t_id t \<in> set ids) (tasks d));
              missing = filter (\<lambda>i. i \<notin> set existingIds) ids
          in if missing \<noteq> []
             then ((400, MissingBody ''Some tasks do not exist or do not belong to user'' missing),
                   d)
             else ((200, OkBody), reorder_tasks parsedListId ids d)))))"

definition deleteCompleted :: "request \<Rightarrow> int option \<Rightarrow> store \<Rightarrow> response \<times> store" where
  "deleteCompleted req lid d =
     (case getUserId req of
        None \<Rightarrow> (unauthorized, d)
      | Some userId \<Rightarrow>
      (case lid of
        None \<Rightarrow> ((400, ErrorBody ''Invalid list id''), d)
      | Some listId \<Rightarrow>
      (case findFirst_list listId userId d of
        None \<Rightarrow> ((404, ErrorBody ''List not found''), d)
      | Some list \<Rightarrow>
          (let (n, d') = deleteMany_tasks
                 (\<lambda>t. t_userId t = userId \<and> t_listId t = listId \<and> t_completed t) d
           in ((200, DeletedBody n), d')))))"

definition main_view :: "request \<Rightarrow> store \<Rightarrow> response \<times> store" where
  "main_view req d =
     ((200, IndexPage (case getUserId req of None \<Rightarrow> '''' | Some u \<Rightarrow> u)), d)"

section \<open>Sharing a list: \<^verbatim>\<open>POST /lists/:id/share\<close>\<close>

text \<open>\<^verbatim>\<open>/^[^@\s]+@[^@\s]+\.[^@\s]+$/\<close>: a local part, one \<open>@\<close>, and a domain with a dot
  that is neither its first nor its last character, none of them with white space.\<close>

definition simpleEmail :: "string \<Rightarrow> bool" where
  "simpleEmail s =
     (let local = takeWhile (\<lambda>c. c \<noteq> CHR ''@'') s; rest = drop (length local) s
      in local \<noteq> [] \<and> (\<forall>c\<in>set local. \<not> is_space c) \<and>
         (case rest of
            [] \<Rightarrow> False
          | at # domain \<Rightarrow>
              (\<forall>c\<in>set domain. c \<noteq> CHR ''@'' \<and> \<not> is_space c) \<and>
              CHR ''.'' \<in> set (butlast (tl domain))))"

text \<open>
  The mailer of the context: absent, an object with a \<^verbatim>\<open>sendMail\<close> method, or a plain
  function. A send either raises or returns a delivery status (empty when it has none).
  The text and the HTML of the mail are fixed by the list name and the redemption URL.
\<close>

record mail =
  m_to :: string
  m_subject :: string
  m_listName :: string
  m_listUrl :: string
  m_listIdHeader :: int

datatype mail_outcome = SendRaises | Delivered string

datatype mailer = NoMailer | MailerObject "mail \<Rightarrow> mail_outcome" | MailerFunction "mail \<Rightarrow> mail_outcome"

definition sendMailFn_of :: "mailer \<Rightarrow> (mail \<Rightarrow> mail_outcome) option" where
  "sendMailFn_of m =
     (case m of MailerObject f \<Rightarrow> Some f | MailerFunction f \<Rightarrow> Some f | NoMailer \<Rightarrow> None)"

text \<open>\<open>now\<close> is the clock of the store, \<open>token\<close> the hex string of the 32 random bytes,
  \<open>baseUrl\<close> the protocol and host of the request.\<close>

definition lists_share ::
  "int \<Rightarrow> string \<Rightarrow> mailer \<Rightarrow> string \<Rightarrow> request \<Rightarrow> int option \<Rightarrow> string \<Rightarrow> store
     \<Rightarrow> response \<times> store" where
  "lists_share now token mailer baseUrl req lid email d =
     (case getUserId req of
        None \<Rightarrow> (unauthorized, d)
      | Some userId \<Rightarrow>
      (case lid of
        None \<Rightarrow> ((400, ErrorBody ''Invalid list id''), d)
      | Some i \<Rightarrow>
      (let trimmedEmail = trim email in
       if trimmedEmail = '''' \<or> \<not> simpleEmail trimmedEmail
       then ((400, ErrorBody ''A valid email address is required''), d)
       else
      (case findFirst_list i userId d of
        None \<Rightarrow> ((404, ErrorBody ''List not found''), d)
      | Some list \<Rightarrow>
      (let (invite, d') = create_invite now i userId trimmedEmail token ''editor'' ''pending'' d
       in
      (case sendMailFn_of mailer of
        None \<Rightarrow> ((501, ErrorBody ''Email delivery is not configured''), d')
      | Some sendMailFn \<Rightarrow>
      (case sendMailFn
              \<lparr>m_to = trimmedEmail,
               m_subject = ''Sovereign Tasks: list \"'' @ l_name list @ ''\" shared with you'',
               m_listName = l_name list,
               m_listUrl = baseUrl @ ''/tasks/share/accept?token='' @ i_token invite,
               m_listIdHeader = i\<rparr> of
        SendRaises \<Rightarrow> ((500, ErrorBody ''Failed to send invitation email''), d')
      | Delivered status \<Rightarrow>
          ((202, SentBody trimmedEmail (i_id invite) (i_token invite)
                   (if status \<noteq> '''' then status else ''unknown'')), d'))))))))"

section \<open>The operations of the system\<close>

datatype op =
    Bootstrap request
  | WebBootstrap request
  | ListsList request
  | ListsCreate request "string option" "string option"
  | ListsUpdate request "int option" "string option" "string option"
  | ListsDelete request "int option"
  | ListsOrder request "int option list option"
  | TasksList request "int option option"
  | TasksCreate request task_create_body
  | TasksUpdate request "int option" task_update_body
  | TasksDelete request "int option"
  | TasksOrder request "int option" "int option list option"
  | DeleteCompleted request "int option"
  | ListsShare int string mailer string request "int option" string
  | ShareAccept int "tx_step \<Rightarrow> bool" request string
  | MainView request

fun step :: "op \<Rightarrow> store \<Rightarrow> response \<times> store" where
  "step (Bootstrap req) d = bootstrap req d"
| "step (WebBootstrap req) d = web_bootstrap req d"
| "step (ListsList req) d = lists_list req d"
| "step (ListsCreate req name slug) d = lists_create req name slug d"
| "step (ListsUpdate req lid name slug) d = lists_put req lid name slug d"
| "step (ListsDelete req lid) d = lists_delete req lid d"
| "step (ListsOrder req listOrder) d = lists_order req listOrder d"
| "step (TasksList req listIdParam) d = tasks_list req listIdParam d"
| "step (TasksCreate req b) d = tasks_create req b d"
| "step (TasksUpdate req tid b) d = tasks_put req tid b d"
| "step (TasksDelete req tid) d = tasks_delete req tid d"
| "step (TasksOrder req listId taskOrder) d = tasks_order req listId taskOrder d"
| "step (DeleteCompleted req lid) d = deleteCompleted req lid d"
| "step (ListsShare now token mailer baseUrl req lid email) d =
     lists_share now token mailer baseUrl req lid email d"
| "step (ShareAccept now fault req token) d = share_accept now fault req token d"
| "step (MainView req) d = main_view req d"

inductive reachable :: "store \<Rightarrow> bool" where
  reachable_empty: "reachable empty_store"
| reachable_step: "reachable d \<Longrightarrow> reachable (snd (step operation d))"

section \<open>Routing\<close>

text \<open>
  The routes of \<^verbatim>\<open>routes/api/index.js\<close> and of \<^verbatim>\<open>routes/web/index.js\<close> in the order
  each file registers them. A path is the list of its segments after the mount point, a
  trailing slash being a last empty segment. The router goes through its routes in
  order and runs the handler of the first one whose method and pattern match; every
  handler answers, so no later route is tried. With the defaults of
  \<^verbatim>\<open>express.Router()\<close> a literal segment matches whatever the case of the letters,
  \<open>:id\<close> matches any non-empty segment and is handed to the handler, and one trailing
  slash is accepted.
\<close>

datatype http_method = GET | POST | PUT | DELETE

datatype segment = Lit string | Param

datatype route_handler =
    RBootstrap | RListsList | RListsCreate | RListsPut | RListsDelete | RListsOrder
  | RTasksList | RTasksCreate | RTasksPut | RTasksDelete | RTasksOrder
  | RListsShare | RDeleteCompleted | RShareAccept | RMainView

definition api_routes :: "(http_method \<times> segment list \<times> route_handler) list" where
  "api_routes =
     [(GET, [Lit ''bootstrap''], RBootstrap),
      (GET, [Lit ''lists''], RListsList),
      (POST, [Lit ''lists''], RListsCreate),
      (PUT, [Lit ''lists'', Param], RListsPut),
      (DELETE, [Lit ''lists'', Param], RListsDelete),
      (PUT, [Lit ''lists'', Lit ''order''], RListsOrder),
      (GET, [], RTasksList),
      (POST, [], RTasksCreate),
      (PUT, [Param], RTasksPut),
      (DELETE, [Param], RTasksDelete),
      (PUT, [Lit ''order''], RTasksOrder),
      (POST, [Lit ''lists'', Param, Lit ''share''], RListsShare),
      (DELETE, [Lit ''lists'', Param, Lit ''completed''], RDeleteCompleted)]"

definition web_routes :: "(http_method \<times> segment list \<times> route_handler) list" where
  "web_routes =
     [(GET, [Lit ''api'', Lit ''tasks'', Lit ''bootstrap''], RBootstrap),
      (GET, [Lit ''api'', Lit ''tasks'', Lit ''lists''], RListsList),
      (POST, [Lit ''api'', Lit ''tasks'', Lit ''lists''], RListsCreate),
      (PUT, [Lit ''api'', Lit ''tasks'', Lit ''lists'', Param], RListsPut),
      (DELETE, [Lit ''api'', Lit ''tasks'', Lit ''lists'', Param], RListsDelete),
      (PUT, [Lit ''api'', Lit ''tasks'', Lit ''lists'', Lit ''order''], RListsOrder),
      (GET, [Lit ''api'', Lit ''tasks''], RTasksList),
      (POST, [Lit ''api'', Lit ''tasks''], RTasksCreate),
      (PUT, [Lit ''api'', Lit ''tasks'', Param], RTasksPut),
      (DELETE, [Lit ''api'', Lit ''tasks'', Param], RTasksDelete),
      (PUT, [Lit ''api'', Lit ''tasks'', Lit ''order''], RTasksOrder),
      (DELETE, [Lit ''api'', Lit ''tasks'', Lit ''lists'', Param, Lit ''completed''],
         RDeleteCompleted),
      (GET, [Lit ''share'', Lit ''accept''], RShareAccept),
      (GET, [], RMainView),
      (GET, [Lit ''index''], RMainView),
      (GET, [Lit ''home''], RMainView)]"

text \<open>The parameters a pattern captures from a path, or \<open>None\<close> when it does not match.\<close>

fun match_segments :: "segment list \<Rightarrow> string list \<Rightarrow> string list option" where
  "match_segments [] [] = Some []"
| "match_segments [] [x] = (if x = '''' then Some [] else None)"
| "match_segments (Lit s # ps) (x # xs) =
     (if toLowerCase x = toLowerCase s then match_segments ps xs else None)"
| "match_segments (Param # ps) (x # xs) =
     (if x \<noteq> '''' then map_option ((#) x) (match_segments ps xs) else None)"
| "match_segments _ _ = None"

fun dispatch ::
  "(http_method \<times> segment list \<times> route_handler) list \<Rightarrow> http_method \<Rightarrow> string list
     \<Rightarrow> (route_handler \<times> string list) option" where
  "dispatch [] m path = None"
| "dispatch ((m', p, h) # routes) m path =
     (if m' = m
      then (case match_segments p path of
              Some params \<Rightarrow> Some (h, params)
            | None \<Rightarrow> dispatch routes m path)
      else dispatch routes m path)"

text \<open>
  A request to the router: method, path, the caller, and the fields of the query and of
  the body as the handlers read them. The context of the plugin gives the mailer; the
  clock, the random token and the failures of the gateway are those of the request.
\<close>

record http_request =
  h_method :: http_method
  h_path :: "string list"
  h_auth :: request
  h_query_listId :: "string option"
  h_query_token :: string
  h_name :: "string option"
  h_slug :: "string option"
  h_listOrder :: "int option list option"
  h_listId :: "int option"
  h_taskOrder :: "int option list option"
  h_create :: task_create_body
  h_update :: task_update_body
  h_email :: string

record env =
  e_now :: int
  e_token :: string
  e_mailer :: mailer
  e_baseUrl :: string
  e_fault :: "tx_step \<Rightarrow> bool"

definition first_param :: "string list \<Rightarrow> string" where
  "first_param params = (case params of [] \<Rightarrow> '''' | p # _ \<Rightarrow> p)"

text \<open>
  \<open>Number_of\<close> stands for \<^verbatim>\<open>Number\<close> followed by \<^verbatim>\<open>Number.isFinite\<close> on a string: the
  number a parameter spells, or \<open>None\<close> when it spells none.
\<close>

fun run_handler ::
  "(string \<Rightarrow> int option) \<Rightarrow> env \<Rightarrow> route_handler \<Rightarrow> string list \<Rightarrow> http_request \<Rightarrow> store
     \<Rightarrow> response \<times> store" where
  "run_handler Number_of e RBootstrap ps h d = bootstrap (h_auth h) d"
| "run_handler Number_of e RListsList ps h d = lists_list (h_auth h) d"
| "run_handler Number_of e RListsCreate ps h d = lists_create (h_auth h) (h_name h) (h_slug h) d"
| "run_handler Number_of e RListsPut ps h d =
     lists_put (h_auth h) (Number_of (first_param ps)) (h_name h) (h_slug h) d"
| "run_handler Number_of e RListsDelete ps h d =
     lists_delete (h_auth h) (Number_of (first_param ps)) d"
| "run_handler Number_of e RListsOrder ps h d = lists_order (h_auth h) (h_listOrder h) d"
| "run_handler Number_of e RTasksList ps h d =
     tasks_list (h_auth h) (map_option Number_of (h_query_listId h)) d"
| "run_handler Number_of e RTasksCreate ps h d = tasks_create (h_auth h) (h_create h) d"
| "run_handler Number_of e RTasksPut ps h d =
     tasks_put (h_auth h) (Number_of (first_param ps)) (h_update h) d"
| "run_handler Number_of e RTasksDelete ps h d =
     tasks_delete (h_auth h) (Number_of (first_param ps)) d"
| "run_handler Number_of e RTasksOrder ps h d =
     tasks_order (h_auth h) (h_listId h) (h_taskOrder h) d"
| "run_handler Number_of e RListsShare ps h d =
     lists_share (e_now e) (e_token e) (e_mailer e) (e_baseUrl e) (h_auth h)
       (Number_of (first_param ps)) (h_email h) d"
| "run_handler Number_of e RDeleteCompleted ps h d =
     deleteCompleted (h_auth h) (Number_of (first_param ps)) d"
| "run_handler Number_of e RShareAccept ps h d =
     share_accept (e_now e) (e_fault e) (h_auth h) (h_query_token h) d"
| "run_handler Number_of e RMainView ps h d = main_view (h_auth h) d"

text \<open>The answer of a router to a request, or \<open>None\<close> when none of its routes matches and
  the request goes on to the host application.\<close>

definition serve ::
  "(http_method \<times> segment list \<times> route_handler) list \<Rightarrow> (string \<Rightarrow> int option) \<Rightarrow> env
     \<Rightarrow> http_request \<Rightarrow> store \<Rightarrow> (response \<times> store) option" where
  "serve routes Number_of e h d =
     (case dispatch routes (h_method h) (h_path h) of
        None \<Rightarrow> None
      | Some (handler, params) \<Rightarrow> Some (run_handler Number_of e handler params h d))"

text \<open>A reader of parameters for the examples: the number a string of decimal digits
  spells, and nothing for any other string.\<close>

definition decimal_Number :: "string \<Rightarrow> int option" where
  "decimal_Number s =
     (if s \<noteq> '''' \<and> (\<forall>c\<in>set s. 48 \<le> (of_char c :: nat) \<and> (of_char c :: nat) \<le> 57)
      then Some (int (nat_of_string s)) else None)"

section \<open>Notions used in the statements\<close>

text \<open>The checks of the redemption handler that come before the clone, passed with the
  invite, the caller and the source list named.\<close>

definition accept_checks :: "int \<Rightarrow> request \<Rightarrow> string \<Rightarrow> store \<Rightarrow> invite \<Rightarrow> string \<Rightarrow> taskList \<Rightarrow> bool" where
  "accept_checks now req token d invite userId sourceList =
     (token \<noteq> '''' \<and> findUnique_invite token d = Some invite
      \<and> i_status invite \<noteq> ''revoked'' \<and> i_status invite \<noteq> ''accepted''
      \<and> getUserId req = Some userId
      \<and> findUnique_list (i_listId invite) d = Some sourceList
      \<and> currentEmail_of req \<noteq> '''' \<and> currentEmail_of req = invitedEmail_of invite
      \<and> \<not> expired now invite)"

text \<open>Some gateway call that the unit of work reaches raises.\<close>

definition clone_fails :: "(tx_step \<Rightarrow> bool) \<Rightarrow> task list \<Rightarrow> bool" where
  "clone_fails fault tasksToClone =
     (fault CountLists \<or> fault ProbeSlug \<or> fault CreateList
      \<or> (tasksToClone \<noteq> [] \<and> fault CreateTasks) \<or> fault UpdateInvite)"

text \<open>The fields of a task that the clone copies.\<close>

definition task_content ::
  "task \<Rightarrow> string \<times> string option \<times> int option \<times> string option \<times> bool \<times> bool \<times> int" where
  "task_content t = (t_title t, t_description t, t_dueDate t, t_recurringConfig t,
     t_completed t, t_starred t, t_position t)"

text \<open>The result of a redemption names the list it created.\<close>

definition created_list_of :: "response \<Rightarrow> taskList option" where
  "created_list_of r = (case snd r of SharePage h l \<Rightarrow> l | _ \<Rightarrow> None)"

text \<open>The candidates in the order they are tried: the base slug, then the base slug with
  \<open>-2\<close>, \<open>-3\<close>, \<dots>\<close>

fun candidate :: "string \<Rightarrow> nat \<Rightarrow> string" where
  "candidate b 0 = b"
| "candidate b (Suc n) = suffixed b (n + 2)"

text \<open>The position a row with id \<open>i\<close> and position \<open>p\<close> has after the updates for the
  sequence \<open>ids\<close>, numbered from \<open>n\<close>, have run in order.\<close>

fun pos_after :: "nat \<Rightarrow> int list \<Rightarrow> int \<Rightarrow> int \<Rightarrow> int" where
  "pos_after n [] i p = p"
| "pos_after n (j # js) i p = pos_after (Suc n) js i (if j = i then int n else p)"

text \<open>What the store's primary key and counter keep true of the invites, and the three
  ways a handler can change them: not at all, by one new pending invite, or by one status
  update of an invite that was neither revoked nor accepted.\<close>

definition inv_ok :: "store \<Rightarrow> bool" where
  "inv_ok d =
     (distinct (map i_id (invites d))
      \<and> (\<forall>i\<in>set (invites d). i_id i < next_invite_id d
            \<and> (i_status i = ''pending'' \<or> i_status i = ''accepted'' \<or> i_status i = ''revoked'')))"

definition invite_effect :: "store \<Rightarrow> store \<Rightarrow> bool" where
  "invite_effect d d' =
     ((invites d' = invites d \<and> next_invite_id d' = next_invite_id d)
      \<or> (\<exists>new. invites d' = invites d @ [new] \<and> i_id new = next_invite_id d
             \<and> i_status new = ''pending'' \<and> next_invite_id d' = next_invite_id d + 1)
      \<or> (\<exists>invite s. invite \<in> set (invites d)
             \<and> i_status invite \<noteq> ''revoked'' \<and> i_status invite \<noteq> ''accepted''
             \<and> (s = ''accepted'' \<or> s = ''revoked'')
             \<and> invites d' = invites (update_invite_status (i_id invite) s d)
             \<and> next_invite_id d' = next_invite_id d))"

section \<open>The slug in the words of the specification\<close>

text \<open>
  The slug of the clone in the words of the specification: lower-case the name, map
  white space to hyphens, strip the characters outside \<open>[a-z0-9-]\<close>, collapse repeated
  hyphens, trim the hyphens at both ends, fall back to \<open>list\<close>.
\<close>

definition hyphen_for_space :: "string \<Rightarrow> string" where
  "hyphen_for_space s = map (\<lambda>c. if is_space c then CHR ''-'' else c) s"

fun collapse_hyphens :: "string \<Rightarrow> string" where
  "collapse_hyphens (a # b # cs) =
     (if a = CHR ''-'' \<and> b = CHR ''-'' then collapse_hyphens (b # cs)
      else a # collapse_hyphens (b # cs))"
| "collapse_hyphens cs = cs"

definition trim_hyphens :: "string \<Rightarrow> string" where
  "trim_hyphens s = rev (dropWhile is_hyphen (rev (dropWhile is_hyphen s)))"

definition spec_derive_slug :: "string \<Rightarrow> string" where
  "spec_derive_slug name =
     (let s = trim_hyphens (collapse_hyphens (filter is_slug_char
                (hyphen_for_space (toLowerCase name))))
      in if s = '''' then ''list'' else s)"

definition spec_baseSlug :: "taskList \<Rightarrow> string" where
  "spec_baseSlug sourceList =
     (if l_slug sourceList \<noteq> '''' then l_slug sourceList
      else spec_derive_slug (l_name sourceList))"

definition spec_cloned_slug :: "store \<Rightarrow> string \<Rightarrow> taskList \<Rightarrow> string" where
  "spec_cloned_slug d userId sourceList =
     uniqueSlug_loop d userId (spec_baseSlug sourceList) (spec_baseSlug sourceList) 2"

text \<open>The same with the one change the code makes: a character outside \<open>[a-z0-9-]\<close>
  becomes a hyphen instead of being removed.\<close>

definition amended_derive_slug :: "string \<Rightarrow> string" where
  "amended_derive_slug name =
     (let s = trim_hyphens (collapse_hyphens (replace_non_slug
                (hyphen_for_space (toLowerCase name))))
      in if s = '''' then ''list'' else s)"

definition amended_baseSlug :: "taskList \<Rightarrow> string" where
  "amended_baseSlug sourceList =
     (if l_slug sourceList \<noteq> '''' then l_slug sourceList
      else amended_derive_slug (l_name sourceList))"

definition no_double_hyphen :: "string \<Rightarrow> bool" where
  "no_double_hyphen s = successively (\<lambda>a b. \<not> (a = CHR ''-'' \<and> b = CHR ''-'')) s"

section \<open>Example stores and requests\<close>

definition demo_store :: store where
  "demo_store = \<lparr>
     lists = [\<lparr>l_id = 1, l_userId = ''alice'', l_name = ''Groceries'', l_slug = ''groceries'',
               l_position = 0\<rparr>,
              \<lparr>l_id = 2, l_userId = ''bob'', l_name = ''My groceries'', l_slug = ''groceries'',
               l_position = 0\<rparr>],
     tasks = [\<lparr>t_id = 1, t_userId = ''alice'', t_listId = 1, t_title = ''A'',
               t_description = None, t_dueDate = None, t_recurringConfig = None,
               t_completed = False, t_starred = False, t_position = 0\<rparr>,
              \<lparr>t_id = 2, t_userId = ''alice'', t_listId = 1, t_title = ''B'',
               t_description = Some ''milk'', t_dueDate = Some 86400000, t_recurringConfig = None,
               t_completed = True, t_starred = True, t_position = 1\<rparr>],
     invites = [\<lparr>i_id = 1, i_listId = 1, i_inviterId = ''alice'', i_email = ''bob@example.com'',
                 i_token = ''c0ffee'', i_role = ''editor'', i_status = ''pending'',
                 i_createdAt = Some 0\<rparr>],
     next_list_id = 3, next_task_id = 3, next_invite_id = 2\<rparr>"

definition legacy_store :: store where
  "legacy_store = demo_store\<lparr>invites := map (\<lambda>i. i\<lparr>i_createdAt := None\<rparr>) (invites demo_store)\<rparr>"

definition qa_store :: store where
  "qa_store = demo_store\<lparr>lists :=
     [\<lparr>l_id = 1, l_userId = ''alice'', l_name = ''Q&A'', l_slug = '''', l_position = 0\<rparr>]\<rparr>"

definition board_store :: store where
  "board_store = \<lparr>
     lists = [\<lparr>l_id = 1, l_userId = ''alice'', l_name = ''Home'', l_slug = ''home'',
               l_position = 0\<rparr>,
              \<lparr>l_id = 2, l_userId = ''alice'', l_name = ''Work'', l_slug = ''work'',
               l_position = 1\<rparr>,
              \<lparr>l_id = 3, l_userId = ''alice'', l_name = ''Trips'', l_slug = ''trips'',
               l_position = 2\<rparr>],
     tasks = [\<lparr>t_id = 1, t_userId = ''alice'', t_listId = 1, t_title = ''Sweep'',
               t_description = None, t_dueDate = None, t_recurringConfig = None,
               t_completed = False, t_starred = False, t_position = 0\<rparr>,
              \<lparr>t_id = 2, t_userId = ''alice'', t_listId = 1, t_title = ''Cook'',
               t_description = None, t_dueDate = None, t_recurringConfig = None,
               t_completed = False, t_starred = False, t_position = 1\<rparr>,
              \<lparr>t_id = 3, t_userId = ''alice'', t_listId = 2, t_title = ''Report'',
               t_description = None, t_dueDate = None, t_recurringConfig = None,
               t_completed = False, t_starred = False, t_position = 0\<rparr>],
     invites = [],
     next_list_id = 4, next_task_id = 4, next_invite_id = 1\<rparr>"

definition alice_request :: request where
  "alice_request = \<lparr>req_user = Some \<lparr>user_id = ''alice'', user_email = ''alice@example.com''\<rparr>,
     req_userId = '''', req_sessionUserId = ''''\<rparr>"

definition bob_request :: request where
  "bob_request = \<lparr>req_user = Some \<lparr>user_id = ''bob'', user_email = '' Bob@Example.com ''\<rparr>,
     req_userId = '''', req_sessionUserId = ''''\<rparr>"

definition carol_request :: request where
  "carol_request = \<lparr>req_user = Some \<lparr>user_id = ''carol'', user_email = ''carol@example.com''\<rparr>,
     req_userId = '''', req_sessionUserId = ''''\<rparr>"

definition no_fault :: "tx_step \<Rightarrow> bool" where
  "no_fault s = False"

definition fault_at :: "tx_step \<Rightarrow> tx_step \<Rightarrow> bool" where
  "fault_at s s' = (s = s')"

definition shared_store :: store where
  "shared_store =
     snd (step (ListsShare 0 ''c0ffee'' NoMailer ''https://host'' alice_request (Some 1)
                  ''bob@example.com'')
       (snd (step (ListsCreate alice_request (Some ''Groceries'') None) empty_store)))"

definition demo_env :: env where
  "demo_env = \<lparr>e_now = 1000, e_token = ''beef'', e_mailer = NoMailer,
     e_baseUrl = ''https://host'', e_fault = no_fault\<rparr>"

definition reorder_request :: "string list \<Rightarrow> http_request" where
  "reorder_request path =
     \<lparr>h_method = PUT, h_path = path, h_auth = alice_request,
      h_query_listId = None, h_query_token = '''',
      h_name = None, h_slug = None,
      h_listOrder = Some [Some 3, Some 1, Some 2],
      h_listId = Some 2,
      h_taskOrder = Some [Some 3, Some 1, Some 2],
      h_create = \<lparr>c_listId = None, c_title = None, c_description = None, c_dueDate = None,
                   c_recurringConfig = None, c_starred = False\<rparr>,
      h_update = \<lparr>u_listId = None, u_title = None, u_description = None, u_dueDate = None,
                   u_recurringConfig = None, u_completed = None, u_starred = None,
                   u_position = None\<rparr>,
      h_email = ''''\<rparr>"

section \<open>Facts about redemption\<close>

lemma createMany_tasks_invites [simp]: "invites (createMany_tasks rows d) = invites d"
  by (induction rows arbitrary: d) (simp_all add: createMany_tasks_def create_task_def Let_def)

lemma createMany_tasks_lists [simp]: "lists (createMany_tasks rows d) = lists d"
  by (induction rows arbitrary: d) (simp_all add: createMany_tasks_def create_task_def Let_def)

lemma clone_tx_invites:
  assumes "clone_tx fault userId sourceList tasksToClone baseSlug invite d = Inr (l, d')"
  shows "invites d' = invites (update_invite_status (i_id invite) ''accepted'' d)"
  using assms
  by (auto simp: clone_tx_def Let_def create_list_def update_invite_status_def
      split: if_splits)

lemma share_accept_clone:
  assumes "accept_checks now req token d invite userId sourceList"
  shows "share_accept now fault req token d =
     (case clone_tx fault userId sourceList (findMany_tasks_of_list (l_id sourceList) d)
             (baseSlug_of sourceList) invite d of
        Inl e \<Rightarrow> ((500, ErrorBody ''Internal server error''), d)
      | Inr (createdList, d') \<Rightarrow>
          ((200, SharePage ''Invitation accepted'' (Some createdList)), d'))"
  using assms
  by (auto simp: accept_checks_def share_accept_def transaction_def Let_def split: sum.splits)

lemma share_accept_200D:
  assumes "share_accept now fault req token d = ((200, b), d')"
  shows "\<exists>invite userId sourceList createdList.
           accept_checks now req token d invite userId sourceList
         \<and> clone_tx fault userId sourceList (findMany_tasks_of_list (l_id sourceList) d)
             (baseSlug_of sourceList) invite d = Inr (createdList, d')
         \<and> b = SharePage ''Invitation accepted'' (Some createdList)"
  using assms
  by (auto simp: accept_checks_def share_accept_def transaction_def Let_def renderInviteError_def
      split: if_splits option.splits sum.splits prod.splits)

lemma find_map_status:
  "find (\<lambda>i. i_token i = t) (map (\<lambda>i. if i_id i = k then i\<lparr>i_status := s\<rparr> else i) xs)
   = map_option (\<lambda>i. if i_id i = k then i\<lparr>i_status := s\<rparr> else i) (find (\<lambda>i. i_token i = t) xs)"
  by (induction xs) auto

lemma findUnique_invite_update:
  "findUnique_invite t d = Some invite \<Longrightarrow>
   findUnique_invite t (update_invite_status (i_id invite) s d) = Some (invite\<lparr>i_status := s\<rparr>)"
  by (simp add: findUnique_invite_def update_invite_status_def find_map_status)

lemma findUnique_invite_cong:
  "invites d = invites d' \<Longrightarrow> findUnique_invite t d = findUnique_invite t d'"
  by (simp add: findUnique_invite_def)

lemma share_accept_accepted:
  "token \<noteq> '''' \<Longrightarrow> findUnique_invite token d = Some invite \<Longrightarrow> i_status invite = ''accepted''
   \<Longrightarrow> share_accept now fault req token d
       = ((409, SharePage ''Invitation already accepted'' None), d)"
  by (simp add: share_accept_def)

lemma clone_tx_fails:
  "clone_fails fault ts \<Longrightarrow> \<exists>e. clone_tx fault userId sourceList ts b invite d = Inl e"
  by (auto simp: clone_fails_def clone_tx_def Let_def split: prod.splits)

lemma createMany_tasks_tasks:
  "tasks (createMany_tasks rows d)
   = tasks d @ map (\<lambda>(k, r). r\<lparr>t_id := next_task_id d + int k\<rparr>) (enumerate 0 rows)"
proof -
  have "tasks (foldl (\<lambda>d' data. snd (create_task data d')) d rows)
        = tasks d @ map (\<lambda>(k, r). r\<lparr>t_id := next_task_id d + int k - int n\<rparr>) (enumerate n rows)
      \<and> next_task_id (foldl (\<lambda>d' data. snd (create_task data d')) d rows)
        = next_task_id d + int (length rows)" for n
  proof (induction rows arbitrary: d n)
    case Nil
    then show ?case by simp
  next
    case (Cons r rows)
    show ?case
      using Cons.IH [of "snd (create_task r d)" "Suc n"]
      by (simp add: create_task_def Let_def algebra_simps)
  qed
  from this [of 0] show ?thesis by (simp add: createMany_tasks_def)
qed

lemma createMany_tasks_content:
  "\<exists>new. tasks (createMany_tasks (map (clone_task u l) ts) d) = tasks d @ new
        \<and> map task_content new = map task_content ts
        \<and> (\<forall>t\<in>set new. t_userId t = u \<and> t_listId t = l)"
proof -
  let ?new = "map (\<lambda>(k, r). r\<lparr>t_id := next_task_id d + int k\<rparr>) (enumerate 0 (map (clone_task u l) ts))"
  have c: "map task_content ?new = map task_content ts"
    by (rule nth_equalityI) (simp_all add: task_content_def clone_task_def nth_enumerate_eq)
  have o: "\<forall>t\<in>set ?new. t_userId t = u \<and> t_listId t = l"
    by (auto simp: clone_task_def in_set_enumerate_eq)
  show ?thesis
    using c o createMany_tasks_tasks by blast
qed

lemma clone_tx_succeeds:
  assumes "\<not> clone_fails fault ts"
  shows "\<exists>createdList d'. clone_tx fault userId sourceList ts b invite d = Inr (createdList, d')
       \<and> lists d' = lists d @ [createdList]
       \<and> l_userId createdList = userId \<and> l_name createdList = l_name sourceList
       \<and> l_position createdList = int (count_lists userId d)
       \<and> l_slug createdList = uniqueSlug_loop d userId b b 2
       \<and> (\<exists>new. tasks d' = tasks d @ new \<and> map task_content new = map task_content ts
              \<and> (\<forall>t\<in>set new. t_userId t = userId \<and> t_listId t = l_id createdList))
       \<and> invites d' = invites (update_invite_status (i_id invite) ''accepted'' d)"
proof (cases "ts = []")
  case True
  with assms show ?thesis
    by (simp add: clone_fails_def clone_tx_def Let_def create_list_def update_invite_status_def)
next
  case False
  let ?l = "\<lparr>l_id = next_list_id d, l_userId = userId, l_name = l_name sourceList,
             l_slug = uniqueSlug_loop d userId b b 2, l_position = int (count_lists userId d)\<rparr>"
  let ?d1 = "d\<lparr>lists := lists d @ [?l], next_list_id := next_list_id d + 1\<rparr>"
  let ?d2 = "createMany_tasks (map (clone_task userId (next_list_id d)) ts) ?d1"
  from False assms
  have e: "clone_tx fault userId sourceList ts b invite d
           = Inr (?l, update_invite_status (i_id invite) ''accepted'' ?d2)"
    by (simp add: clone_fails_def clone_tx_def Let_def create_list_def)
  obtain new where n: "tasks ?d2 = tasks ?d1 @ new" "map task_content new = map task_content ts"
      "\<forall>t\<in>set new. t_userId t = userId \<and> t_listId t = next_list_id d"
    using createMany_tasks_content [of userId "next_list_id d" ts ?d1] by blast
  show ?thesis
    using e n by (simp add: update_invite_status_def)
qed

lemma clone_tx_result:
  assumes "clone_tx fault userId sourceList ts b invite d = Inr (createdList, d')"
  shows "lists d' = lists d @ [createdList]
       \<and> l_userId createdList = userId \<and> l_name createdList = l_name sourceList
       \<and> l_position createdList = int (count_lists userId d)
       \<and> l_slug createdList = uniqueSlug_loop d userId b b 2
       \<and> (\<exists>new. tasks d' = tasks d @ new \<and> map task_content new = map task_content ts
              \<and> (\<forall>t\<in>set new. t_userId t = userId \<and> t_listId t = l_id createdList))
       \<and> invites d' = invites (update_invite_status (i_id invite) ''accepted'' d)"
proof (cases "clone_fails fault ts")
  case True
  then show ?thesis
    using assms clone_tx_fails [OF True, where userId = userId and sourceList = sourceList
      and b = b and invite = invite and d = d] by auto
next
  case False
  from clone_tx_succeeds [OF False, where userId = userId and sourceList = sourceList
      and b = b and invite = invite and d = d] assms
  show ?thesis by auto
qed

lemma not_clone_fails_no_fault [simp]: "\<not> clone_fails no_fault ts"
  by (simp add: clone_fails_def no_fault_def)

lemma share_accept_no_fault:
  assumes "accept_checks now req token d invite userId sourceList"
  shows "fst (fst (share_accept now no_fault req token d)) = 200"
  using clone_tx_succeeds [OF not_clone_fails_no_fault,
      where ts = "findMany_tasks_of_list (l_id sourceList) d" and userId = userId
        and sourceList = sourceList and b = "baseSlug_of sourceList" and invite = invite
        and d = d]
  by (auto simp: share_accept_clone [OF assms])

lemma findUnique_list_id: "findUnique_list i d = Some l \<Longrightarrow> l_id l = i"
  by (auto simp: findUnique_list_def find_Some_iff)

lemma share_accept_invites:
  assumes "findUnique_invite token d = Some invite"
    and "findUnique_list (i_listId invite) d \<noteq> None"
    and "\<not> expired now invite"
  shows "snd (share_accept now fault req token d) = d
       \<or> invites (snd (share_accept now fault req token d))
          = invites (update_invite_status (i_id invite) ''accepted'' d)"
  using assms
  by (auto simp: share_accept_def Let_def transaction_def
      split: option.splits sum.splits prod.splits dest: clone_tx_invites)

section \<open>Facts about reordering\<close>

lemma pos_after_other: "i \<notin> set ids \<Longrightarrow> pos_after n ids i p = p"
  by (induction ids arbitrary: n p) auto

lemma pos_after_member: "i \<in> set ids \<Longrightarrow> pos_after n ids i p = pos_after n ids i q"
  by (induction ids arbitrary: n p q) (auto simp: pos_after_other)

lemma pos_after_nth:
  "distinct ids \<Longrightarrow> k < length ids \<Longrightarrow> pos_after n ids (ids ! k) p = int (n + k)"
proof (induction ids arbitrary: n k p)
  case Nil
  then show ?case by simp
next
  case (Cons j js)
  show ?case
  proof (cases k)
    case 0
    with Cons.prems show ?thesis by (simp add: pos_after_other)
  next
    case (Suc m)
    with Cons.prems have "js ! m \<noteq> j" by auto
    with Cons Suc show ?thesis by simp
  qed
qed

lemma map_pos_after:
  "distinct ids \<Longrightarrow> map (\<lambda>i. pos_after 0 ids i 0) ids = map int [0..<length ids]"
  by (rule nth_equalityI) (simp_all add: pos_after_nth)

lemma reorder_lists_fold:
  "foldl (\<lambda>d' (index, i). update_list i (\<lambda>l. l\<lparr>l_position := int index\<rparr>) d') d
       (enumerate n ids)
   = d\<lparr>lists := map (\<lambda>l. l\<lparr>l_position := pos_after n ids (l_id l) (l_position l)\<rparr>) (lists d)\<rparr>"
proof (induction ids arbitrary: d n)
  case Nil
  then show ?case by simp
next
  case (Cons j js)
  let ?f = "\<lambda>d' (index, i). update_list i (\<lambda>l. l\<lparr>l_position := int index\<rparr>) d'"
  let ?d1 = "update_list j (\<lambda>l. l\<lparr>l_position := int n\<rparr>) d"
  have "foldl ?f d (enumerate n (j # js)) = foldl ?f ?d1 (enumerate (Suc n) js)"
    by simp
  also have "\<dots> = ?d1\<lparr>lists := map (\<lambda>l. l\<lparr>l_position :=
                 pos_after (Suc n) js (l_id l) (l_position l)\<rparr>) (lists ?d1)\<rparr>"
    by (rule Cons.IH)
  also have "\<dots> = d\<lparr>lists := map (\<lambda>l. l\<lparr>l_position :=
                 pos_after n (j # js) (l_id l) (l_position l)\<rparr>) (lists d)\<rparr>"
    by (auto simp: update_list_def comp_def)
  finally show ?case .
qed

lemma reorder_lists_rows:
  "reorder_lists ids d
   = d\<lparr>lists := map (\<lambda>l. l\<lparr>l_position := pos_after 0 ids (l_id l) (l_position l)\<rparr>) (lists d)\<rparr>"
  by (simp add: reorder_lists_def reorder_lists_fold)

lemma reorder_tasks_fold:
  "foldl (\<lambda>d' (index, i).
              update_task i (\<lambda>t. t\<lparr>t_listId := lid, t_position := int index\<rparr>) d') d
       (enumerate n ids)
   = d\<lparr>tasks := map (\<lambda>t. if t_id t \<in> set ids
                          then t\<lparr>t_listId := lid,
                                 t_position := pos_after n ids (t_id t) (t_position t)\<rparr>
                          else t) (tasks d)\<rparr>"
proof (induction ids arbitrary: d n)
  case Nil
  then show ?case by simp
next
  case (Cons j js)
  let ?f = "\<lambda>d' (index, i).
              update_task i (\<lambda>t. t\<lparr>t_listId := lid, t_position := int index\<rparr>) d'"
  let ?d1 = "update_task j (\<lambda>t. t\<lparr>t_listId := lid, t_position := int n\<rparr>) d"
  have "foldl ?f d (enumerate n (j # js)) = foldl ?f ?d1 (enumerate (Suc n) js)"
    by simp
  also have "\<dots> = ?d1\<lparr>tasks := map (\<lambda>t. if t_id t \<in> set js
                          then t\<lparr>t_listId := lid,
                                 t_position := pos_after (Suc n) js (t_id t) (t_position t)\<rparr>
                          else t) (tasks ?d1)\<rparr>"
    by (rule Cons.IH)
  also have "\<dots> = d\<lparr>tasks := map (\<lambda>t. if t_id t \<in> set (j # js)
                          then t\<lparr>t_listId := lid,
                                 t_position := pos_after n (j # js) (t_id t) (t_position t)\<rparr>
                          else t) (tasks d)\<rparr>"
    by (auto simp: update_task_def comp_def pos_after_other)
  finally show ?case .
qed

lemma reorder_tasks_rows:
  "reorder_tasks lid ids d
   = d\<lparr>tasks := map (\<lambda>t. if t_id t \<in> set ids
                          then t\<lparr>t_listId := lid,
                                 t_position := pos_after 0 ids (t_id t) (t_position t)\<rparr>
                          else t) (tasks d)\<rparr>"
  by (simp add: reorder_tasks_def reorder_tasks_fold)

lemma lists_order_valid:
  assumes "getUserId req = Some userId"
    and "\<forall>i\<in>set ids. \<exists>l\<in>set (lists d). l_id l = i \<and> l_userId l = userId"
  shows "lists_order req (Some (map Some ids)) d = ((200, OkBody), reorder_lists ids d)"
proof -
  have "filter (\<lambda>i. i \<notin> set (map l_id
          (filter (\<lambda>l. l_userId l = userId \<and> l_id l \<in> set ids) (lists d)))) ids = []"
    using assms(2) by (force simp: filter_empty_conv)
  with assms(1) show ?thesis
    by (simp add: lists_order_def Let_def comp_def)
qed

lemma tasks_order_valid:
  assumes "getUserId req = Some userId"
    and "\<forall>i\<in>set ids. \<exists>t\<in>set (tasks d). t_id t = i \<and> t_userId t = userId"
  shows "tasks_order req (Some lid) (Some (map Some ids)) d
         = ((200, OkBody), reorder_tasks lid ids d)"
proof -
  have "filter (\<lambda>i. i \<notin> set (map t_id
          (filter (\<lambda>t. t_userId t = userId \<and> t_id t \<in> set ids) (tasks d)))) ids = []"
    using assms(2) by (force simp: filter_empty_conv)
  with assms(1) show ?thesis
    by (simp add: tasks_order_def Let_def comp_def)
qed

lemma dense_positions:
  assumes "distinct ids" and "distinct (map key rows)" and "set (map key rows) = set ids"
  shows "mset (map (\<lambda>r. pos_after 0 ids (key r) (old r)) rows) = mset (map int [0..<length ids])"
proof -
  have "map (\<lambda>r. pos_after 0 ids (key r) (old r)) rows
        = map (\<lambda>i. pos_after 0 ids i 0) (map key rows)"
    using assms(3) by (auto simp: comp_def intro: pos_after_member)
  moreover have "mset (map key rows) = mset ids"
    using set_eq_iff_mset_eq_distinct [OF assms(2) assms(1)] assms(3) by blast
  ultimately have "mset (map (\<lambda>r. pos_after 0 ids (key r) (old r)) rows)
        = mset (map (\<lambda>i. pos_after 0 ids i 0) ids)"
    by (metis mset_map)
  then show ?thesis
    by (simp add: map_pos_after [OF assms(1)])
qed

text \<open>
  The bodies of the two reorder handlers, applied to a request. For ids that all belong
  to the caller and are pairwise different, the body answers 200, keeps the rows, and gives
  every submitted id the position that equals its index in the sequence (a task also moves
  to the target list). When in addition the sequence names every row of the scope (every
  list of the caller; every task that is in the target list), the positions in the scope
  are exactly \<open>0, \<dots>, n - 1\<close>, each once.
\<close>

lemma reorder_body_assigns_indices:
  assumes "getUserId req = Some userId"
    and "distinct ids"
  shows "((\<forall>i\<in>set ids. \<exists>l\<in>set (lists d). l_id l = i \<and> l_userId l = userId) \<longrightarrow>
            fst (lists_order req (Some (map Some ids)) d) = (200, OkBody)
          \<and> map l_id (lists (snd (lists_order req (Some (map Some ids)) d))) = map l_id (lists d)
          \<and> (\<forall>k<length ids. \<forall>l\<in>set (lists (snd (lists_order req (Some (map Some ids)) d))).
                l_id l = ids ! k \<longrightarrow> l_position l = int k)
          \<and> (distinct (map l_id (lists d))
             \<and> set ids = l_id ` {l \<in> set (lists d). l_userId l = userId} \<longrightarrow>
                mset (map l_position (filter (\<lambda>l. l_userId l = userId)
                        (lists (snd (lists_order req (Some (map Some ids)) d)))))
                = mset (map int [0..<length ids])))
       \<and> ((\<forall>i\<in>set ids. \<exists>t\<in>set (tasks d). t_id t = i \<and> t_userId t = userId) \<longrightarrow>
            fst (tasks_order req (Some lid) (Some (map Some ids)) d) = (200, OkBody)
          \<and> map t_id (tasks (snd (tasks_order req (Some lid) (Some (map Some ids)) d)))
              = map t_id (tasks d)
          \<and> (\<forall>k<length ids.
               \<forall>t\<in>set (tasks (snd (tasks_order req (Some lid) (Some (map Some ids)) d))).
                t_id t = ids ! k \<longrightarrow> t_position t = int k \<and> t_listId t = lid)
          \<and> (distinct (map t_id (tasks d))
             \<and> (\<forall>t\<in>set (tasks d). t_listId t = lid \<longrightarrow> t_id t \<in> set ids) \<longrightarrow>
                mset (map t_position (filter (\<lambda>t. t_listId t = lid)
                        (tasks (snd (tasks_order req (Some lid) (Some (map Some ids)) d)))))
                = mset (map int [0..<length ids])))"
proof (intro conjI impI)
  assume v: "\<forall>i\<in>set ids. \<exists>l\<in>set (lists d). l_id l = i \<and> l_userId l = userId"
  let ?d' = "snd (lists_order req (Some (map Some ids)) d)"
  have r: "lists_order req (Some (map Some ids)) d = ((200, OkBody), reorder_lists ids d)"
    by (rule lists_order_valid [OF assms(1) v])
  have rows: "lists ?d'
      = map (\<lambda>l. l\<lparr>l_position := pos_after 0 ids (l_id l) (l_position l)\<rparr>) (lists d)"
    by (simp add: r reorder_lists_rows)
  show "fst (lists_order req (Some (map Some ids)) d) = (200, OkBody)"
    by (simp add: r)
  show "map l_id (lists ?d') = map l_id (lists d)"
    by (simp add: rows comp_def)
  show "\<forall>k<length ids. \<forall>l\<in>set (lists ?d'). l_id l = ids ! k \<longrightarrow> l_position l = int k"
    using pos_after_nth [OF assms(2), of _ 0] by (auto simp: rows)
  {
    assume f: "distinct (map l_id (lists d))
             \<and> set ids = l_id ` {l \<in> set (lists d). l_userId l = userId}"
    let ?U = "filter (\<lambda>l. l_userId l = userId) (lists d)"
    have u: "filter (\<lambda>l. l_userId l = userId) (lists ?d')
             = map (\<lambda>l. l\<lparr>l_position := pos_after 0 ids (l_id l) (l_position l)\<rparr>) ?U"
      by (simp add: rows filter_map comp_def)
    have "distinct (map l_id ?U)"
      using f by (simp add: distinct_map_filter)
    moreover have "set (map l_id ?U) = set ids"
      using f by auto
    ultimately
    have "mset (map (\<lambda>l. pos_after 0 ids (l_id l) (l_position l)) ?U)
          = mset (map int [0..<length ids])"
      by (rule dense_positions [OF assms(2)])
    then show "mset (map l_position (filter (\<lambda>l. l_userId l = userId) (lists ?d')))
          = mset (map int [0..<length ids])"
      by (simp add: u comp_def)
  }
next
  assume v: "\<forall>i\<in>set ids. \<exists>t\<in>set (tasks d). t_id t = i \<and> t_userId t = userId"
  let ?d' = "snd (tasks_order req (Some lid) (Some (map Some ids)) d)"
  let ?g = "\<lambda>t. if t_id t \<in> set ids
                 then t\<lparr>t_listId := lid, t_position := pos_after 0 ids (t_id t) (t_position t)\<rparr>
                 else t"
  have r: "tasks_order req (Some lid) (Some (map Some ids)) d
           = ((200, OkBody), reorder_tasks lid ids d)"
    by (rule tasks_order_valid [OF assms(1) v])
  have rows: "tasks ?d' = map ?g (tasks d)"
    by (simp add: r reorder_tasks_rows)
  show "fst (tasks_order req (Some lid) (Some (map Some ids)) d) = (200, OkBody)"
    by (simp add: r)
  show "map t_id (tasks ?d') = map t_id (tasks d)"
    by (simp add: rows comp_def)
  show "\<forall>k<length ids. \<forall>t\<in>set (tasks ?d').
          t_id t = ids ! k \<longrightarrow> t_position t = int k \<and> t_listId t = lid"
    using pos_after_nth [OF assms(2), of _ 0] by (auto simp: rows)
  {
    assume f: "distinct (map t_id (tasks d))
             \<and> (\<forall>t\<in>set (tasks d). t_listId t = lid \<longrightarrow> t_id t \<in> set ids)"
    let ?V = "filter (\<lambda>t. t_id t \<in> set ids) (tasks d)"
    have "filter (\<lambda>t. t_listId (?g t) = lid) (tasks d) = ?V"
      using f by (auto intro: filter_cong)
    then have u: "filter (\<lambda>t. t_listId t = lid) (tasks ?d') = map ?g ?V"
      by (simp add: rows filter_map comp_def)
    have p: "map t_position (map ?g ?V)
             = map (\<lambda>t. pos_after 0 ids (t_id t) (t_position t)) ?V"
      by (auto simp: comp_def)
    have "distinct (map t_id ?V)"
      using f by (simp add: distinct_map_filter)
    moreover have "set (map t_id ?V) = set ids"
      using v by auto
    ultimately
    have "mset (map (\<lambda>t. pos_after 0 ids (t_id t) (t_position t)) ?V)
          = mset (map int [0..<length ids])"
      by (rule dense_positions [OF assms(2)])
    then show "mset (map t_position (filter (\<lambda>t. t_listId t = lid) (tasks ?d')))
          = mset (map int [0..<length ids])"
      by (simp only: u p)
  }
qed

text \<open>
  The bodies do not ask for more than that each id belongs to the caller: over lists 1, 2, 3
  (positions 0, 1, 2) the sequence [3] is answered 200 and leaves positions 0, 0, 1, and the
  sequence [1, 1, 2, 3] is answered 200 and leaves positions 1, 2, 3.
\<close>

lemma reorder_body_accepts_partial:
  "fst (lists_order alice_request (Some [Some 3]) board_store) = (200, OkBody)
   \<and> map l_id (findMany_lists ''alice''
        (snd (lists_order alice_request (Some [Some 3]) board_store))) = [1, 3, 2]
   \<and> map l_position (findMany_lists ''alice''
        (snd (lists_order alice_request (Some [Some 3]) board_store))) = [0, 0, 1]
   \<and> fst (lists_order alice_request (Some [Some 1, Some 1, Some 2, Some 3]) board_store)
       = (200, OkBody)
   \<and> map l_position (findMany_lists ''alice''
        (snd (lists_order alice_request (Some [Some 1, Some 1, Some 2, Some 3]) board_store)))
       = [1, 2, 3]"
  by code_simp


lemma reorder_body_example:
  "getUserId alice_request = Some ''alice''
   \<and> distinct [3, 1, 2 :: int]
   \<and> fst (lists_order alice_request (Some (map Some [3, 1, 2])) board_store) = (200, OkBody)
   \<and> mset (map l_position (filter (\<lambda>l. l_userId l = ''alice'')
        (lists (snd (lists_order alice_request (Some (map Some [3, 1, 2])) board_store)))))
       = mset (map int [0..<length [3, 1, 2 :: int]])
   \<and> map l_id (findMany_lists ''alice''
        (snd (lists_order alice_request (Some (map Some [3, 1, 2])) board_store))) = [3, 1, 2]
   \<and> fst (tasks_order alice_request (Some 2) (Some (map Some [3, 1, 2])) board_store)
       = (200, OkBody)
   \<and> mset (map t_position (filter (\<lambda>t. t_listId t = 2)
        (tasks (snd (tasks_order alice_request (Some 2) (Some (map Some [3, 1, 2]))
           board_store)))))
       = mset (map int [0..<length [3, 1, 2 :: int]])
   \<and> map t_id (findMany_tasks ''alice'' (Some 2)
        (snd (tasks_order alice_request (Some 2) (Some (map Some [3, 1, 2])) board_store)))
       = [3, 1, 2]"
proof -
  have g: "getUserId alice_request = Some ''alice''"
    by code_simp
  have n: "distinct [3, 1, 2 :: int]"
    by simp
  have vl: "\<forall>i\<in>set [3, 1, 2]. \<exists>l\<in>set (lists board_store). l_id l = i \<and> l_userId l = ''alice''"
    by code_simp
  have fl: "distinct (map l_id (lists board_store))
      \<and> set [3, 1, 2] = l_id ` {l \<in> set (lists board_store). l_userId l = ''alice''}"
    by code_simp
  have vt: "\<forall>i\<in>set [3, 1, 2]. \<exists>t\<in>set (tasks board_store). t_id t = i \<and> t_userId t = ''alice''"
    by code_simp
  have ft: "distinct (map t_id (tasks board_store))
      \<and> (\<forall>t\<in>set (tasks board_store). t_listId t = 2 \<longrightarrow> t_id t \<in> set [3, 1, 2])"
    by code_simp
  have ol: "map l_id (findMany_lists ''alice''
        (snd (lists_order alice_request (Some (map Some [3, 1, 2])) board_store))) = [3, 1, 2]"
    by code_simp
  have ot: "map t_id (findMany_tasks ''alice'' (Some 2)
        (snd (tasks_order alice_request (Some 2) (Some (map Some [3, 1, 2])) board_store)))
       = [3, 1, 2]"
    by code_simp
  from reorder_body_assigns_indices [OF g n, of board_store 2] vl fl vt ft
  have "fst (lists_order alice_request (Some (map Some [3, 1, 2])) board_store) = (200, OkBody)"
    and "mset (map l_position (filter (\<lambda>l. l_userId l = ''alice'')
        (lists (snd (lists_order alice_request (Some (map Some [3, 1, 2])) board_store)))))
       = mset (map int [0..<length [3, 1, 2 :: int]])"
    and "fst (tasks_order alice_request (Some 2) (Some (map Some [3, 1, 2])) board_store)
       = (200, OkBody)"
    and "mset (map t_position (filter (\<lambda>t. t_listId t = 2)
        (tasks (snd (tasks_order alice_request (Some 2) (Some (map Some [3, 1, 2]))
           board_store)))))
       = mset (map int [0..<length [3, 1, 2 :: int]])"
    by blast+
  with g n ol ot show ?thesis by blast
qed

section \<open>Facts about the routes\<close>

lemma match_order_as_param:
  "match_segments (pre @ [Lit ''order'']) path \<noteq> None
   \<Longrightarrow> match_segments (pre @ [Param]) path \<noteq> None"
proof (induction pre arbitrary: path)
  case Nil
  show ?case
  proof (cases path)
    case Nil
    with Nil.prems show ?thesis by simp
  next
    case (Cons x xs)
    with Nil.prems have "toLowerCase x = toLowerCase ''order''"
      and "match_segments [] xs \<noteq> None"
      by (simp_all split: if_splits)
    moreover from this(1) have "x \<noteq> ''''"
      by (auto simp: toLowerCase_def)
    ultimately show ?thesis
      using Cons by auto
  qed
next
  case (Cons s pre)
  show ?case
  proof (cases path)
    case Nil
    with Cons.prems show ?thesis by (cases s) simp_all
  next
    case c: (Cons x xs)
    show ?thesis
    proof (cases s)
      case (Lit l)
      with Cons c show ?thesis by (simp split: if_splits)
    next
      case Param
      with Cons c show ?thesis by (auto split: if_splits)
    qed
  qed
qed


lemma api_order_routes_never_chosen:
  "dispatch api_routes m path \<noteq> Some (RListsOrder, ps)
   \<and> dispatch api_routes m path \<noteq> Some (RTasksOrder, ps)"
proof (cases m)
  case PUT
  show ?thesis
    using match_order_as_param [of "[Lit ''lists'']" path] match_order_as_param [of "[]" path]
    unfolding PUT api_routes_def
    by (auto split: option.splits)
qed (simp_all add: api_routes_def split: option.splits)

lemma web_order_routes_never_chosen:
  "dispatch web_routes m path \<noteq> Some (RListsOrder, ps)
   \<and> dispatch web_routes m path \<noteq> Some (RTasksOrder, ps)"
proof (cases m)
  case PUT
  show ?thesis
    using match_order_as_param [of "[Lit ''api'', Lit ''tasks'', Lit ''lists'']" path]
      match_order_as_param [of "[Lit ''api'', Lit ''tasks'']" path]
    unfolding PUT web_routes_def
    by (auto split: option.splits)
qed (simp_all add: web_routes_def split: option.splits)


lemma order_paths_dispatch:
  "dispatch api_routes PUT [''lists'', ''order''] = Some (RListsPut, [''order''])
   \<and> dispatch api_routes PUT [''order''] = Some (RTasksPut, [''order''])
   \<and> dispatch web_routes PUT [''api'', ''tasks'', ''lists'', ''order'']
       = Some (RListsPut, [''order''])
   \<and> dispatch web_routes PUT [''api'', ''tasks'', ''order''] = Some (RTasksPut, [''order''])"
  by code_simp

section \<open>Facts about the invites\<close>

lemma createMany_tasks_next_invite_id [simp]:
  "next_invite_id (createMany_tasks rows d) = next_invite_id d"
  by (induction rows arbitrary: d) (simp_all add: createMany_tasks_def create_task_def Let_def)

lemma clone_tx_next_invite_id:
  assumes "clone_tx fault userId sourceList tasksToClone baseSlug invite d = Inr (l, d')"
  shows "next_invite_id d' = next_invite_id d"
  using assms
  by (auto simp: clone_tx_def Let_def create_list_def update_invite_status_def
      split: if_splits)

lemma findUnique_invite_mem: "findUnique_invite token d = Some invite \<Longrightarrow> invite \<in> set (invites d)"
  by (auto simp: findUnique_invite_def find_Some_iff)

lemma invite_effect_same: "invites d' = invites d \<Longrightarrow> next_invite_id d' = next_invite_id d
    \<Longrightarrow> invite_effect d d'"
  by (simp add: invite_effect_def)

lemma invite_effect_update:
  "findUnique_invite token d = Some invite \<Longrightarrow> i_status invite \<noteq> ''revoked''
   \<Longrightarrow> i_status invite \<noteq> ''accepted'' \<Longrightarrow> s = ''accepted'' \<or> s = ''revoked''
   \<Longrightarrow> invites d' = invites (update_invite_status (i_id invite) s d)
   \<Longrightarrow> next_invite_id d' = next_invite_id d
   \<Longrightarrow> invite_effect d d'"
  unfolding invite_effect_def using findUnique_invite_mem by blast

lemma share_accept_effect: "invite_effect d (snd (share_accept now fault req token d))"
proof (cases "token \<noteq> '''' \<and> findUnique_invite token d \<noteq> None")
  case False
  then show ?thesis
    by (auto simp: share_accept_def intro: invite_effect_same)
next
  case True
  then obtain invite where t: "token \<noteq> ''''" and f: "findUnique_invite token d = Some invite"
    by auto
  show ?thesis
  proof (cases "i_status invite = ''revoked'' \<or> i_status invite = ''accepted''
                \<or> getUserId req = None")
    case True
    then show ?thesis
      using t f by (auto simp: share_accept_def intro: invite_effect_same)
  next
    case False
    then obtain userId where s: "i_status invite \<noteq> ''revoked''" "i_status invite \<noteq> ''accepted''"
      and u: "getUserId req = Some userId"
      by auto
    note upd = invite_effect_update [OF f s]
    show ?thesis
    proof (cases "findUnique_list (i_listId invite) d")
      case None
      with t f s u have "share_accept now fault req token d
          = (renderInviteError 410 ''List unavailable'',
             update_invite_status (i_id invite) ''revoked'' d)"
        by (simp add: share_accept_def)
      then show ?thesis
        by (simp add: upd [of "''revoked''"] update_invite_status_def)
    next
      case (Some sourceList)
      show ?thesis
      proof (cases "currentEmail_of req = '''' \<or> currentEmail_of req \<noteq> invitedEmail_of invite")
        case True
        with t f s u Some show ?thesis
          by (auto simp: share_accept_def Let_def intro: invite_effect_same)
      next
        case e: False
        show ?thesis
        proof (cases "expired now invite")
          case True
          with t f s u Some e have "share_accept now fault req token d
              = (renderInviteError 410 ''Invitation expired'',
                 update_invite_status (i_id invite) ''revoked'' d)"
            by (auto simp: share_accept_def Let_def)
          then show ?thesis
            by (simp add: upd [of "''revoked''"] update_invite_status_def)
        next
          case False
          with t f s u Some e
          have k: "accept_checks now req token d invite userId sourceList"
            by (auto simp: accept_checks_def)
          show ?thesis
          proof (cases "clone_tx fault userId sourceList
                          (findMany_tasks_of_list (l_id sourceList) d)
                          (baseSlug_of sourceList) invite d")
            case (Inl x)
            then show ?thesis
              by (simp add: share_accept_clone [OF k] invite_effect_same)
          next
            case (Inr r)
            then obtain l d' where r: "clone_tx fault userId sourceList
                          (findMany_tasks_of_list (l_id sourceList) d)
                          (baseSlug_of sourceList) invite d = Inr (l, d')"
              by (cases r) auto
            from r have "snd (share_accept now fault req token d) = d'"
              by (simp add: share_accept_clone [OF k])
            then show ?thesis
              using upd [of "''accepted''" d'] clone_tx_invites [OF r]
                clone_tx_next_invite_id [OF r]
              by simp
          qed
        qed
      qed
    qed
  qed
qed

lemma lists_share_effect:
  "invite_effect d (snd (lists_share now token mailer baseUrl req lid email d))"
  by (auto simp: lists_share_def Let_def create_invite_def invite_effect_def
      split: option.splits mail_outcome.splits)

lemma step_effect: "invite_effect d (snd (step operation d))"
proof (cases operation)
  case (ListsShare now token mailer baseUrl req lid email)
  then show ?thesis by (simp add: lists_share_effect)
next
  case (ShareAccept now fault req token)
  then show ?thesis by (simp add: share_accept_effect)
next
  case (ListsOrder req listOrder)
  then show ?thesis
    by (auto simp: lists_order_def Let_def reorder_lists_rows unauthorized_def
        intro!: invite_effect_same split: option.splits)
next
  case (TasksOrder req listId taskOrder)
  then show ?thesis
    by (auto simp: tasks_order_def Let_def reorder_tasks_rows unauthorized_def
        intro!: invite_effect_same split: option.splits)
next
  case (ListsCreate req name slug)
  then show ?thesis
    by (auto simp: lists_create_def Let_def create_list_def
        intro!: invite_effect_same split: option.splits)
next
  case (TasksCreate req b)
  then show ?thesis
    by (auto simp: tasks_create_def Let_def create_task_def
        intro!: invite_effect_same split: option.splits)
qed (auto simp: bootstrap_def web_bootstrap_def lists_list_def lists_put_def lists_delete_def
      tasks_list_def tasks_put_def tasks_delete_def deleteCompleted_def main_view_def
      update_list_def update_task_def delete_list_def delete_task_def deleteMany_tasks_def
      Let_def intro!: invite_effect_same split: option.splits)

lemma inv_ok_same_id:
  "inv_ok d \<Longrightarrow> i \<in> set (invites d) \<Longrightarrow> j \<in> set (invites d) \<Longrightarrow> i_id i = i_id j \<Longrightarrow> i = j"
  by (auto simp: inv_ok_def distinct_map dest: inj_onD)

lemma invite_effect_cases:
  assumes "invite_effect d d'"
  obtains (same) "invites d' = invites d" "next_invite_id d' = next_invite_id d"
  | (created) new where "invites d' = invites d @ [new]" "i_id new = next_invite_id d"
      "i_status new = ''pending''" "next_invite_id d' = next_invite_id d + 1"
  | (updated) invite s where "invite \<in> set (invites d)"
      "i_status invite \<noteq> ''revoked''" "i_status invite \<noteq> ''accepted''"
      "s = ''accepted'' \<or> s = ''revoked''"
      "invites d' = invites (update_invite_status (i_id invite) s d)"
      "next_invite_id d' = next_invite_id d"
  using assms unfolding invite_effect_def by blast

lemma inv_ok_effect:
  assumes "inv_ok d" and "invite_effect d d'"
  shows "inv_ok d'"
  using assms(2)
proof (cases rule: invite_effect_cases)
  case same
  with assms(1) show ?thesis by (simp add: inv_ok_def)
next
  case (created new)
  with assms(1) show ?thesis by (fastforce simp: inv_ok_def)
next
  case (updated invite s)
  with assms(1) show ?thesis
    by (auto simp: inv_ok_def update_invite_status_def comp_def if_distrib cong: if_cong)
qed

lemma reachable_inv_ok: "reachable d \<Longrightarrow> inv_ok d"
proof (induction rule: reachable.induct)
  case reachable_empty
  show ?case by (simp add: inv_ok_def empty_store_def)
next
  case (reachable_step d operation)
  then show ?case using inv_ok_effect step_effect by blast
qed

section \<open>Facts about slugs\<close>

lemma uniqueSlug_loop_first_free:
  "s = candidate b n \<Longrightarrow> sfx = n + 2 \<Longrightarrow>
   \<exists>m\<ge>n. uniqueSlug_loop d u b s sfx = candidate b m
        \<and> candidate b m \<notin> set (user_slugs u d)
        \<and> (\<forall>k. n \<le> k \<and> k < m \<longrightarrow> candidate b k \<in> set (user_slugs u d))"
proof (induction d u b s sfx arbitrary: n rule: uniqueSlug_loop.induct)
  case (1 d userId baseSlug uniqueSlug suffix)
  show ?case
  proof (cases "findFirst_list_slug userId uniqueSlug d \<noteq> None")
    case False
    then have "uniqueSlug \<notin> set (user_slugs userId d)"
      by (simp only: slug_conflict_iff not_False_eq_True)
    moreover from False have "uniqueSlug_loop d userId baseSlug uniqueSlug suffix = uniqueSlug"
      by (simp add: uniqueSlug_loop.simps [of d userId baseSlug uniqueSlug suffix])
    ultimately show ?thesis
      using "1.prems"(1) by (intro exI [of _ n]) auto
  next
    case True
    then have c: "candidate baseSlug n \<in> set (user_slugs userId d)"
      using "1.prems"(1) by (simp only: slug_conflict_iff)
    have "suffixed baseSlug suffix = candidate baseSlug (Suc n)" "suffix + 1 = Suc n + 2"
      using "1.prems"(2) by simp_all
    from "1.IH" [OF True this] obtain m where m: "Suc n \<le> m"
      "uniqueSlug_loop d userId baseSlug (suffixed baseSlug suffix) (suffix + 1)
         = candidate baseSlug m"
      "candidate baseSlug m \<notin> set (user_slugs userId d)"
      "\<forall>k. Suc n \<le> k \<and> k < m \<longrightarrow> candidate baseSlug k \<in> set (user_slugs userId d)"
      by blast
    from True have "uniqueSlug_loop d userId baseSlug uniqueSlug suffix
        = uniqueSlug_loop d userId baseSlug (suffixed baseSlug suffix) (suffix + 1)"
      by (simp add: uniqueSlug_loop.simps [of d userId baseSlug uniqueSlug suffix])
    with m(2) have e: "uniqueSlug_loop d userId baseSlug uniqueSlug suffix = candidate baseSlug m"
      by simp
    have "\<forall>k. n \<le> k \<and> k < m \<longrightarrow> candidate baseSlug k \<in> set (user_slugs userId d)"
    proof (intro allI impI)
      fix k assume "n \<le> k \<and> k < m"
      then show "candidate baseSlug k \<in> set (user_slugs userId d)"
        using c m(4) by (cases "k = n") auto
    qed
    with m(1,3) e show ?thesis
      by (intro exI [of _ m]) auto
  qed
qed

lemma collapse_hyphens_hyphen:
  "collapse_hyphens (CHR ''-'' # cs) = CHR ''-'' # collapse_hyphens (dropWhile is_hyphen cs)"
  by (induction cs) (auto simp: is_hyphen_def)

lemma collapse_hyphens_other:
  "c \<noteq> CHR ''-'' \<Longrightarrow> collapse_hyphens (c # cs) = c # collapse_hyphens cs"
  by (cases cs) auto

lemma replace_runs_hyphen: "replace_runs is_hyphen s = collapse_hyphens s"
proof (induction is_hyphen s rule: replace_runs.induct)
  case 1
  show ?case by simp
next
  case (2 c cs)
  then show ?case
    by (auto simp: collapse_hyphens_hyphen collapse_hyphens_other is_hyphen_def)
qed

lemma dropWhile_collapse_hyphens:
  "dropWhile is_hyphen (collapse_hyphens xs) = collapse_hyphens (dropWhile is_hyphen xs)"
proof (cases xs)
  case Nil
  then show ?thesis by simp
next
  case (Cons c cs)
  show ?thesis
  proof (cases "c = CHR ''-''")
    case False
    with Cons show ?thesis by (simp add: collapse_hyphens_other is_hyphen_def)
  next
    case True
    have "dropWhile is_hyphen (collapse_hyphens ys) = collapse_hyphens ys"
      if "ys = [] \<or> \<not> is_hyphen (hd ys)" for ys
      using that by (cases ys) (auto simp: collapse_hyphens_other is_hyphen_def)
    moreover have "dropWhile is_hyphen cs = [] \<or> \<not> is_hyphen (hd (dropWhile is_hyphen cs))"
      using hd_dropWhile [of is_hyphen cs] by blast
    ultimately show ?thesis
      using Cons True by (simp add: collapse_hyphens_hyphen is_hyphen_def)
  qed
qed

lemma space_is_not_slug_char: "is_space c \<Longrightarrow> \<not> is_slug_char c"
  by (auto simp: is_space_def is_slug_char_def)

lemma hyphen_is_slug_char: "is_slug_char (CHR ''-'')"
  by (simp add: is_slug_char_def)

lemma replace_non_slug_hyphen_for_space:
  "replace_non_slug (hyphen_for_space s) = replace_non_slug s"
  by (induction s)
     (auto simp: replace_non_slug_def hyphen_for_space_def space_is_not_slug_char
        hyphen_is_slug_char)

lemma dropWhile_replace_non_slug_space:
  "dropWhile is_hyphen (replace_non_slug (dropWhile is_space cs))
   = dropWhile is_hyphen (replace_non_slug cs)"
  by (induction cs) (auto simp: replace_non_slug_def space_is_not_slug_char is_hyphen_def)

lemma collapse_after_space_runs:
  "collapse_hyphens (replace_non_slug (replace_runs is_space s))
   = collapse_hyphens (replace_non_slug s)"
proof (induction is_space s rule: replace_runs.induct)
  case 1
  show ?case by simp
next
  case (2 c cs)
  show ?case
  proof (cases "is_space c")
    case True
    let ?r = "replace_runs is_space (dropWhile is_space cs)"
    have a: "collapse_hyphens (replace_non_slug (replace_runs is_space (c # cs)))
          = CHR ''-'' # collapse_hyphens (dropWhile is_hyphen (replace_non_slug ?r))"
      using True by (simp add: replace_non_slug_def collapse_hyphens_hyphen hyphen_is_slug_char)
    have "collapse_hyphens (dropWhile is_hyphen (replace_non_slug ?r))
          = dropWhile is_hyphen (collapse_hyphens (replace_non_slug ?r))"
      by (simp only: dropWhile_collapse_hyphens)
    also have "\<dots>
          = dropWhile is_hyphen (collapse_hyphens (replace_non_slug (dropWhile is_space cs)))"
      by (simp only: "2.hyps"(1) [OF True])
    also have "\<dots> = collapse_hyphens (dropWhile is_hyphen (replace_non_slug cs))"
      by (simp only: dropWhile_collapse_hyphens dropWhile_replace_non_slug_space)
    finally have b: "collapse_hyphens (dropWhile is_hyphen (replace_non_slug ?r))
          = collapse_hyphens (dropWhile is_hyphen (replace_non_slug cs))" .
    have "collapse_hyphens (replace_non_slug (c # cs))
          = CHR ''-'' # collapse_hyphens (dropWhile is_hyphen (replace_non_slug cs))"
      using True
      by (simp add: replace_non_slug_def collapse_hyphens_hyphen space_is_not_slug_char)
    with a b show ?thesis by simp
  next
    case False
    let ?n = "if is_slug_char c then c else CHR ''-''"
    have l: "replace_non_slug (replace_runs is_space (c # cs))
             = ?n # replace_non_slug (replace_runs is_space cs)"
      using False by (simp add: replace_non_slug_def)
    have r: "replace_non_slug (c # cs) = ?n # replace_non_slug cs"
      by (simp add: replace_non_slug_def)
    show ?thesis
    proof (cases "?n = CHR ''-''")
      case True
      have "collapse_hyphens (dropWhile is_hyphen (replace_non_slug (replace_runs is_space cs)))
            = collapse_hyphens (dropWhile is_hyphen (replace_non_slug cs))"
        by (simp only: dropWhile_collapse_hyphens [symmetric] "2.hyps"(2) [OF False])
      then show ?thesis
        unfolding l r True by (simp only: collapse_hyphens_hyphen)
    next
      case n: False
      show ?thesis
        unfolding l r using "2.hyps"(2) [OF False] n
        by (simp add: collapse_hyphens_other)
    qed
  qed
qed

lemma collapse_hyphens_head: "\<exists>r. collapse_hyphens (b # cs) = b # r"
  by (induction cs arbitrary: b) auto

lemma no_double_hyphen_collapse: "no_double_hyphen (collapse_hyphens s)"
  unfolding no_double_hyphen_def
proof (induction s rule: collapse_hyphens.induct)
  case (1 a b cs)
  obtain r where r: "collapse_hyphens (b # cs) = b # r"
    using collapse_hyphens_head by blast
  show ?case
  proof (cases "a = CHR ''-'' \<and> b = CHR ''-''")
    case True
    with 1 show ?thesis by simp
  next
    case False
    with 1 r show ?thesis by auto
  qed
qed simp_all

lemma strip_leading_hyphen:
  "no_double_hyphen s \<Longrightarrow>
   (case s of [] \<Rightarrow> [] | c # cs \<Rightarrow> if c = CHR ''-'' then cs else s) = dropWhile is_hyphen s"
  by (cases s; cases "tl s") (auto simp: no_double_hyphen_def is_hyphen_def)

lemma no_double_hyphen_rev: "no_double_hyphen (rev s) = no_double_hyphen s"
proof -
  have "(\<lambda>x y. \<not> (y = CHR ''-'' \<and> x = CHR ''-'')) = (\<lambda>a b. \<not> (a = CHR ''-'' \<and> b = CHR ''-''))"
    by (intro ext) auto
  then show ?thesis
    by (simp only: no_double_hyphen_def successively_rev)
qed

lemma no_double_hyphen_dropWhile: "no_double_hyphen s \<Longrightarrow> no_double_hyphen (dropWhile p s)"
  unfolding no_double_hyphen_def
  by (induction s) (auto simp: successively_Cons)

lemma strip_trailing_hyphen:
  assumes "no_double_hyphen s"
  shows "(if s \<noteq> [] \<and> last s = CHR ''-'' then butlast s else s)
         = rev (dropWhile is_hyphen (rev s))"
proof -
  have "rev (dropWhile is_hyphen (rev s))
        = rev (case rev s of [] \<Rightarrow> [] | c # cs \<Rightarrow> if c = CHR ''-'' then cs else rev s)"
    using strip_leading_hyphen [of "rev s"] assms by (simp add: no_double_hyphen_rev)
  also have "\<dots> = (if s \<noteq> [] \<and> last s = CHR ''-'' then butlast s else s)"
    by (cases s rule: rev_cases) auto
  finally show ?thesis by simp
qed

lemma strip_edge_is_trim:
  assumes "no_double_hyphen s"
  shows "strip_edge_hyphens s = trim_hyphens s"
proof -
  have "strip_edge_hyphens s
        = (let s1 = dropWhile is_hyphen s
           in if s1 \<noteq> [] \<and> last s1 = CHR ''-'' then butlast s1 else s1)"
    using strip_leading_hyphen [OF assms] by (simp add: strip_edge_hyphens_def)
  also have "\<dots> = rev (dropWhile is_hyphen (rev (dropWhile is_hyphen s)))"
    using strip_trailing_hyphen [OF no_double_hyphen_dropWhile [OF assms, of is_hyphen]]
    by (simp add: Let_def)
  finally show ?thesis by (simp add: trim_hyphens_def)
qed

lemma derive_slug_chain:
  "strip_edge_hyphens (replace_runs is_hyphen (replace_non_slug (replace_runs is_space s)))
   = trim_hyphens (collapse_hyphens (replace_non_slug (hyphen_for_space s)))"
  by (simp add: replace_runs_hyphen collapse_after_space_runs replace_non_slug_hyphen_for_space
      strip_edge_is_trim no_double_hyphen_collapse)

lemma derive_slug_of_list: "derive_slug '''' = ''list''"
  by code_simp

lemma amended_derive_slug_empty: "amended_derive_slug '''' = ''list''"
  by code_simp

lemma baseSlug_of_amended: "baseSlug_of sourceList = amended_baseSlug sourceList"
proof (cases "l_slug sourceList \<noteq> ''''")
  case True
  then show ?thesis by (simp add: baseSlug_of_def amended_baseSlug_def)
next
  case s: False
  show ?thesis
  proof (cases "l_name sourceList = ''''")
    case True
    with s show ?thesis
      by (simp add: baseSlug_of_def amended_baseSlug_def derive_slug_of_list
          amended_derive_slug_empty)
  next
    case False
    then have "derive_slug (l_name sourceList)
        = trim_hyphens (collapse_hyphens (replace_non_slug
            (hyphen_for_space (toLowerCase (l_name sourceList)))))"
      by (simp add: derive_slug_def derive_slug_chain)
    with s show ?thesis
      by (simp add: baseSlug_of_def amended_baseSlug_def amended_derive_slug_def Let_def)
  qed
qed

section \<open>Claims\<close>

text \<open>
  C1. Redemption is idempotent against replay: presenting the token of an invite whose
  status is accepted returns the neutral already-accepted result (409) and leaves the
  store as it was, so no list or task is created and the invite is not changed; hence a
  second redemption of a token whose first redemption succeeded creates nothing.
\<close>

theorem replay_is_idempotent:
  "(token \<noteq> '''' \<and> findUnique_invite token d = Some invite \<and> i_status invite = ''accepted''
      \<longrightarrow> share_accept now fault req token d
          = ((409, SharePage ''Invitation already accepted'' None), d))
   \<and> (share_accept nowA faultA reqA token d = ((200, bodyA), dA)
      \<longrightarrow> share_accept nowB faultB reqB token dA
          = ((409, SharePage ''Invitation already accepted'' None), dA))"
proof (intro conjI impI)
  assume "token \<noteq> '''' \<and> findUnique_invite token d = Some invite \<and> i_status invite = ''accepted''"
  then show "share_accept now fault req token d
          = ((409, SharePage ''Invitation already accepted'' None), d)"
    by (simp add: share_accept_accepted)
next
  assume "share_accept nowA faultA reqA token d = ((200, bodyA), dA)"
  then obtain iv userId sourceList createdList where
    chk: "accept_checks nowA reqA token d iv userId sourceList" and
    tx: "clone_tx faultA userId sourceList (findMany_tasks_of_list (l_id sourceList) d)
             (baseSlug_of sourceList) iv d = Inr (createdList, dA)"
    using share_accept_200D by blast
  from chk have t: "token \<noteq> ''''" and f: "findUnique_invite token d = Some iv"
    by (simp_all add: accept_checks_def)
  have "findUnique_invite token dA
        = findUnique_invite token (update_invite_status (i_id iv) ''accepted'' d)"
    by (rule findUnique_invite_cong) (rule clone_tx_invites [OF tx])
  also have "\<dots> = Some (iv\<lparr>i_status := ''accepted''\<rparr>)"
    by (rule findUnique_invite_update [OF f])
  finally show "share_accept nowB faultB reqB token dA
          = ((409, SharePage ''Invitation already accepted'' None), dA)"
    using t by (simp add: share_accept_accepted)
qed

theorem replay_is_idempotent_witness:
  "(''c0ffee'' \<noteq> '''' 
    \<and> findUnique_invite ''c0ffee'' (update_invite_status 1 ''accepted'' demo_store)
        = Some \<lparr>i_id = 1, i_listId = 1, i_inviterId = ''alice'', i_email = ''bob@example.com'',
                 i_token = ''c0ffee'', i_role = ''editor'', i_status = ''accepted'',
                 i_createdAt = Some 0\<rparr>
    \<and> share_accept 5 no_fault bob_request ''c0ffee'' (update_invite_status 1 ''accepted'' demo_store)
        = ((409, SharePage ''Invitation already accepted'' None),
           update_invite_status 1 ''accepted'' demo_store))
   \<and> (fst (fst (share_accept 1000 no_fault bob_request ''c0ffee'' demo_store)) = 200
    \<and> share_accept 2000 no_fault bob_request ''c0ffee''
         (snd (share_accept 1000 no_fault bob_request ''c0ffee'' demo_store))
        = ((409, SharePage ''Invitation already accepted'' None),
           snd (share_accept 1000 no_fault bob_request ''c0ffee'' demo_store)))"
proof -
  let ?acc = "update_invite_status 1 ''accepted'' demo_store"
  let ?iv = "\<lparr>i_id = 1, i_listId = 1, i_inviterId = ''alice'', i_email = ''bob@example.com'',
                 i_token = ''c0ffee'', i_role = ''editor'', i_status = ''accepted'',
                 i_createdAt = Some 0\<rparr>"
  let ?R = "share_accept 1000 no_fault bob_request ''c0ffee'' demo_store"
  have f: "findUnique_invite ''c0ffee'' ?acc = Some ?iv"
    by code_simp
  have h: "fst (fst ?R) = 200"
    by code_simp
  then have e: "?R = ((200, snd (fst ?R)), snd ?R)"
    by (metis prod.collapse)
  have a: "share_accept 5 no_fault bob_request ''c0ffee'' ?acc
        = ((409, SharePage ''Invitation already accepted'' None), ?acc)"
    using f replay_is_idempotent [where token = "''c0ffee''" and d = ?acc and invite = ?iv
        and now = 5 and fault = no_fault and req = bob_request]
    by simp
  have b: "share_accept 2000 no_fault bob_request ''c0ffee'' (snd ?R)
        = ((409, SharePage ''Invitation already accepted'' None), snd ?R)"
    using e replay_is_idempotent [where token = "''c0ffee''" and d = demo_store
        and nowA = 1000 and faultA = no_fault and reqA = bob_request
        and bodyA = "snd (fst ?R)" and dA = "snd ?R"
        and nowB = 2000 and faultB = no_fault and reqB = bob_request]
    by simp
  from f h a b show ?thesis by simp
qed


text \<open>
  C2. The clone transaction is all-or-nothing. For a redemption of a pending invite that
  passes every check: when a gateway call of the unit of work raises (counting the lists,
  probing the slug, creating the list, inserting the tasks when there are any, or updating
  the invite), the answer is 500 and the store is the one the request started from, so
  no list or task is kept, the invite is still the pending one, and a later redemption
  without failures succeeds; when no call raises, the new list, the copies of the tasks
  and the accepted status are all in the store the request leaves.
\<close>

theorem clone_is_all_or_nothing:
  assumes "accept_checks now req token d invite userId sourceList"
    and "i_status invite = ''pending''"
  shows "(clone_fails fault (findMany_tasks_of_list (l_id sourceList) d) \<longrightarrow>
            share_accept now fault req token d = ((500, ErrorBody ''Internal server error''), d)
          \<and> findUnique_invite token (snd (share_accept now fault req token d)) = Some invite
          \<and> fst (fst (share_accept now no_fault req token
                         (snd (share_accept now fault req token d)))) = 200)
       \<and> (\<not> clone_fails fault (findMany_tasks_of_list (l_id sourceList) d) \<longrightarrow>
            (\<exists>createdList d' new.
               share_accept now fault req token d
                 = ((200, SharePage ''Invitation accepted'' (Some createdList)), d')
             \<and> lists d' = lists d @ [createdList]
             \<and> tasks d' = tasks d @ new
             \<and> map task_content new
                 = map task_content (findMany_tasks_of_list (l_id sourceList) d)
             \<and> findUnique_invite token d' = Some (invite\<lparr>i_status := ''accepted''\<rparr>)))"
proof (intro conjI impI)
  assume f: "clone_fails fault (findMany_tasks_of_list (l_id sourceList) d)"
  from clone_tx_fails [OF f, where userId = userId and sourceList = sourceList
      and b = "baseSlug_of sourceList" and invite = invite and d = d]
  show r: "share_accept now fault req token d = ((500, ErrorBody ''Internal server error''), d)"
    by (auto simp: share_accept_clone [OF assms(1)] split: sum.splits)
  from assms(1) show "findUnique_invite token (snd (share_accept now fault req token d)) = Some invite"
    by (simp add: r accept_checks_def)
  show "fst (fst (share_accept now no_fault req token
                         (snd (share_accept now fault req token d)))) = 200"
    by (simp add: r share_accept_no_fault [OF assms(1)])
next
  assume f: "\<not> clone_fails fault (findMany_tasks_of_list (l_id sourceList) d)"
  from assms(1) have u: "findUnique_invite token d = Some invite"
    by (simp add: accept_checks_def)
  from clone_tx_succeeds [OF f, where userId = userId and sourceList = sourceList
      and b = "baseSlug_of sourceList" and invite = invite and d = d]
  obtain createdList d' new where
    c: "clone_tx fault userId sourceList (findMany_tasks_of_list (l_id sourceList) d)
          (baseSlug_of sourceList) invite d = Inr (createdList, d')"
    and l: "lists d' = lists d @ [createdList]"
    and t: "tasks d' = tasks d @ new"
       "map task_content new = map task_content (findMany_tasks_of_list (l_id sourceList) d)"
    and i: "invites d' = invites (update_invite_status (i_id invite) ''accepted'' d)"
    by blast
  have "findUnique_invite token d' = Some (invite\<lparr>i_status := ''accepted''\<rparr>)"
    using findUnique_invite_cong [OF i, of token] findUnique_invite_update [OF u] by simp
  with c l t show "\<exists>createdList d' new.
               share_accept now fault req token d
                 = ((200, SharePage ''Invitation accepted'' (Some createdList)), d')
             \<and> lists d' = lists d @ [createdList]
             \<and> tasks d' = tasks d @ new
             \<and> map task_content new
                 = map task_content (findMany_tasks_of_list (l_id sourceList) d)
             \<and> findUnique_invite token d' = Some (invite\<lparr>i_status := ''accepted''\<rparr>)"
    by (simp add: share_accept_clone [OF assms(1)])
qed

theorem clone_is_all_or_nothing_witness:
  "accept_checks 1000 bob_request ''c0ffee'' demo_store
     \<lparr>i_id = 1, i_listId = 1, i_inviterId = ''alice'', i_email = ''bob@example.com'',
      i_token = ''c0ffee'', i_role = ''editor'', i_status = ''pending'', i_createdAt = Some 0\<rparr>
     ''bob''
     \<lparr>l_id = 1, l_userId = ''alice'', l_name = ''Groceries'', l_slug = ''groceries'',
      l_position = 0\<rparr>
   \<and> clone_fails (fault_at UpdateInvite) (findMany_tasks_of_list 1 demo_store)
   \<and> share_accept 1000 (fault_at UpdateInvite) bob_request ''c0ffee'' demo_store
       = ((500, ErrorBody ''Internal server error''), demo_store)
   \<and> fst (fst (share_accept 1000 no_fault bob_request ''c0ffee''
        (snd (share_accept 1000 (fault_at UpdateInvite) bob_request ''c0ffee'' demo_store))))
       = 200
   \<and> \<not> clone_fails no_fault (findMany_tasks_of_list 1 demo_store)
   \<and> (\<exists>createdList d' new.
         share_accept 1000 no_fault bob_request ''c0ffee'' demo_store
           = ((200, SharePage ''Invitation accepted'' (Some createdList)), d')
       \<and> lists d' = lists demo_store @ [createdList]
       \<and> tasks d' = tasks demo_store @ new
       \<and> length new = 2
       \<and> map_option i_status (findUnique_invite ''c0ffee'' d') = Some ''accepted'')"
proof -
  let ?iv = "\<lparr>i_id = 1, i_listId = 1, i_inviterId = ''alice'', i_email = ''bob@example.com'',
      i_token = ''c0ffee'', i_role = ''editor'', i_status = ''pending'', i_createdAt = Some 0\<rparr>"
  let ?src = "\<lparr>l_id = 1, l_userId = ''alice'', l_name = ''Groceries'', l_slug = ''groceries'',
      l_position = 0\<rparr>"
  have k: "accept_checks 1000 bob_request ''c0ffee'' demo_store ?iv ''bob'' ?src"
    by code_simp
  have p: "i_status ?iv = ''pending''"
    by simp
  have y: "clone_fails (fault_at UpdateInvite) (findMany_tasks_of_list (l_id ?src) demo_store)"
    by code_simp
  have n: "\<not> clone_fails no_fault (findMany_tasks_of_list (l_id ?src) demo_store)"
    by simp
  have z: "length (findMany_tasks_of_list (l_id ?src) demo_store) = 2"
    by code_simp
  from clone_is_all_or_nothing [OF k p, of "fault_at UpdateInvite"] y
  have a: "share_accept 1000 (fault_at UpdateInvite) bob_request ''c0ffee'' demo_store
       = ((500, ErrorBody ''Internal server error''), demo_store)"
    and b: "fst (fst (share_accept 1000 no_fault bob_request ''c0ffee''
        (snd (share_accept 1000 (fault_at UpdateInvite) bob_request ''c0ffee'' demo_store))))
       = 200"
    by blast+
  from clone_is_all_or_nothing [OF k p, of no_fault] n
  obtain createdList d' new where
    c: "share_accept 1000 no_fault bob_request ''c0ffee'' demo_store
           = ((200, SharePage ''Invitation accepted'' (Some createdList)), d')"
       "lists d' = lists demo_store @ [createdList]"
       "tasks d' = tasks demo_store @ new"
       "map task_content new
          = map task_content (findMany_tasks_of_list (l_id ?src) demo_store)"
       "findUnique_invite ''c0ffee'' d' = Some (?iv\<lparr>i_status := ''accepted''\<rparr>)"
    by blast
  from c(4) have "length (map task_content new) = 2"
    using z by simp
  then have e: "length new = 2" by simp
  have "\<exists>createdList d' new.
         share_accept 1000 no_fault bob_request ''c0ffee'' demo_store
           = ((200, SharePage ''Invitation accepted'' (Some createdList)), d')
       \<and> lists d' = lists demo_store @ [createdList]
       \<and> tasks d' = tasks demo_store @ new
       \<and> length new = 2
       \<and> map_option i_status (findUnique_invite ''c0ffee'' d') = Some ''accepted''"
    using c(1,2,3,5) e by auto
  with k y n a b show ?thesis
    by simp
qed

text \<open>
  C4. For every accepted redemption the store gains one list, owned by the recipient, at
  the position that equals the number of lists the recipient had, and one copy of every
  task of the source list, in the order of (position, id), each with the title,
  description, due date, recurring configuration, completed and starred flags and the
  position of its source task, attributed to the recipient and to the new list. The
  witness is the source list with task A at position 0 and task B at position 1.
\<close>

theorem clone_copies_list_and_tasks:
  assumes "share_accept now fault req token d = ((200, b), d')"
    and "findUnique_invite token d = Some invite"
    and "getUserId req = Some userId"
  shows "\<exists>createdList new.
           b = SharePage ''Invitation accepted'' (Some createdList)
         \<and> lists d' = lists d @ [createdList]
         \<and> l_userId createdList = userId
         \<and> l_position createdList = int (count_lists userId d)
         \<and> tasks d' = tasks d @ new
         \<and> (\<forall>t\<in>set new. t_userId t = userId \<and> t_listId t = l_id createdList)
         \<and> map task_content new
             = map task_content (sort_key (\<lambda>t. (t_position t, t_id t))
                 (filter (\<lambda>t. t_listId t = i_listId invite) (tasks d)))
         \<and> mset (map task_content new)
             = mset (map task_content (filter (\<lambda>t. t_listId t = i_listId invite) (tasks d)))"
proof -
  from share_accept_200D [OF assms(1)] obtain iv u sourceList createdList where
    chk: "accept_checks now req token d iv u sourceList" and
    tx: "clone_tx fault u sourceList (findMany_tasks_of_list (l_id sourceList) d)
             (baseSlug_of sourceList) iv d = Inr (createdList, d')" and
    b: "b = SharePage ''Invitation accepted'' (Some createdList)"
    by blast
  from chk assms(2,3) have e: "iv = invite" "u = userId"
    and s: "findUnique_list (i_listId invite) d = Some sourceList"
    by (simp_all add: accept_checks_def)
  have i: "l_id sourceList = i_listId invite"
    by (rule findUnique_list_id [OF s])
  from clone_tx_result [OF tx] obtain new where
    r: "lists d' = lists d @ [createdList]" "l_userId createdList = userId"
       "l_position createdList = int (count_lists userId d)"
       "tasks d' = tasks d @ new"
       "map task_content new = map task_content (findMany_tasks_of_list (i_listId invite) d)"
       "\<forall>t\<in>set new. t_userId t = userId \<and> t_listId t = l_id createdList"
    unfolding e i by blast
  have o: "map task_content new
             = map task_content (sort_key (\<lambda>t. (t_position t, t_id t))
                 (filter (\<lambda>t. t_listId t = i_listId invite) (tasks d)))"
    using r(5) by (simp add: findMany_tasks_of_list_def)
  have m: "mset (map task_content new)
             = mset (map task_content (filter (\<lambda>t. t_listId t = i_listId invite) (tasks d)))"
    unfolding o by simp
  from b r(1,2,3,4,6) o m show ?thesis
    by blast
qed

theorem clone_copies_list_and_tasks_witness:
  "fst (fst (share_accept 1000 no_fault bob_request ''c0ffee'' demo_store)) = 200
   \<and> findUnique_invite ''c0ffee'' demo_store
       = Some \<lparr>i_id = 1, i_listId = 1, i_inviterId = ''alice'', i_email = ''bob@example.com'',
                i_token = ''c0ffee'', i_role = ''editor'', i_status = ''pending'',
                i_createdAt = Some 0\<rparr>
   \<and> getUserId bob_request = Some ''bob''
   \<and> (\<exists>createdList new.
         snd (fst (share_accept 1000 no_fault bob_request ''c0ffee'' demo_store))
           = SharePage ''Invitation accepted'' (Some createdList)
       \<and> lists (snd (share_accept 1000 no_fault bob_request ''c0ffee'' demo_store))
           = lists demo_store @ [createdList]
       \<and> l_userId createdList = ''bob'' \<and> l_position createdList = 1
       \<and> l_slug createdList = ''groceries-2''
       \<and> tasks (snd (share_accept 1000 no_fault bob_request ''c0ffee'' demo_store))
           = tasks demo_store @ new
       \<and> map (\<lambda>t. (t_title t, t_position t, t_userId t)) new
           = [(''A'', 0, ''bob''), (''B'', 1, ''bob'')])"
proof -
  let ?R = "share_accept 1000 no_fault bob_request ''c0ffee'' demo_store"
  let ?iv = "\<lparr>i_id = 1, i_listId = 1, i_inviterId = ''alice'', i_email = ''bob@example.com'',
                i_token = ''c0ffee'', i_role = ''editor'', i_status = ''pending'',
                i_createdAt = Some 0\<rparr>"
  have h: "fst (fst ?R) = 200"
    by code_simp
  then have e: "?R = ((200, snd (fst ?R)), snd ?R)"
    by (metis prod.collapse)
  have f: "findUnique_invite ''c0ffee'' demo_store = Some ?iv"
    by code_simp
  have g: "getUserId bob_request = Some ''bob''"
    by code_simp
  have c: "int (count_lists ''bob'' demo_store) = 1"
    by code_simp
  have sl: "map_option l_slug (case snd (fst ?R) of SharePage h l \<Rightarrow> l | _ \<Rightarrow> None)
            = Some ''groceries-2''"
    by code_simp
  have tk: "map (\<lambda>t. (t_title t, t_position t, t_userId t))
              (drop (length (tasks demo_store)) (tasks (snd ?R)))
            = [(''A'', 0, ''bob''), (''B'', 1, ''bob'')]"
    by code_simp
  from clone_copies_list_and_tasks [OF e f g] obtain createdList new where
    r: "snd (fst ?R) = SharePage ''Invitation accepted'' (Some createdList)"
       "lists (snd ?R) = lists demo_store @ [createdList]"
       "l_userId createdList = ''bob''"
       "l_position createdList = int (count_lists ''bob'' demo_store)"
       "tasks (snd ?R) = tasks demo_store @ new"
    by blast
  from sl r(1) have s: "l_slug createdList = ''groceries-2''" by simp
  from tk r(5) have t: "map (\<lambda>t. (t_title t, t_position t, t_userId t)) new
            = [(''A'', 0, ''bob''), (''B'', 1, ''bob'')]" by simp
  from h f g r c s t show ?thesis by auto
qed

text \<open>
  C6. A redemption that reaches the age check (token found, invite pending, caller signed
  in, source list present, email matching) of an invite whose age from \<open>createdAt\<close> is
  more than 30 days is answered 410 "Invitation expired", the invite becomes revoked, and
  no list or task is created. The witness is an invite created 31 days before.
\<close>

theorem old_invite_is_expired:
  assumes "token \<noteq> ''''"
    and "findUnique_invite token d = Some invite"
    and "i_status invite = ''pending''"
    and "getUserId req = Some userId"
    and "findUnique_list (i_listId invite) d = Some sourceList"
    and "currentEmail_of req \<noteq> ''''"
    and "currentEmail_of req = invitedEmail_of invite"
    and "i_createdAt invite = Some createdAt"
    and "now - createdAt > 30 * 24 * 60 * 60 * 1000"
  shows "share_accept now fault req token d
           = ((410, ErrorPage ''Invitation expired''),
              update_invite_status (i_id invite) ''revoked'' d)
       \<and> findUnique_invite token (snd (share_accept now fault req token d))
           = Some (invite\<lparr>i_status := ''revoked''\<rparr>)
       \<and> lists (snd (share_accept now fault req token d)) = lists d
       \<and> tasks (snd (share_accept now fault req token d)) = tasks d"
proof -
  have x: "expired now invite"
    using assms(8,9) by (simp add: expired_def INVITE_MAX_AGE_DAYS_def)
  have r: "share_accept now fault req token d
           = ((410, ErrorPage ''Invitation expired''),
              update_invite_status (i_id invite) ''revoked'' d)"
    using assms(1-7) x by (auto simp: share_accept_def Let_def renderInviteError_def)
  show ?thesis
    using findUnique_invite_update [OF assms(2)]
    by (simp add: r) (simp add: update_invite_status_def)
qed

theorem old_invite_is_expired_witness:
  "''c0ffee'' \<noteq> ''''
   \<and> findUnique_invite ''c0ffee'' demo_store
       = Some \<lparr>i_id = 1, i_listId = 1, i_inviterId = ''alice'', i_email = ''bob@example.com'',
                i_token = ''c0ffee'', i_role = ''editor'', i_status = ''pending'',
                i_createdAt = Some 0\<rparr>
   \<and> getUserId bob_request = Some ''bob''
   \<and> findUnique_list 1 demo_store
       = Some \<lparr>l_id = 1, l_userId = ''alice'', l_name = ''Groceries'', l_slug = ''groceries'',
                l_position = 0\<rparr>
   \<and> currentEmail_of bob_request = ''bob@example.com''
   \<and> (31 * 24 * 60 * 60 * 1000 :: int) - 0 > 30 * 24 * 60 * 60 * 1000
   \<and> share_accept (31 * 24 * 60 * 60 * 1000) no_fault bob_request ''c0ffee'' demo_store
       = ((410, ErrorPage ''Invitation expired''), update_invite_status 1 ''revoked'' demo_store)
   \<and> map i_status (invites (snd (share_accept (31 * 24 * 60 * 60 * 1000) no_fault bob_request
         ''c0ffee'' demo_store))) = [''revoked'']"
proof -
  let ?iv = "\<lparr>i_id = 1, i_listId = 1, i_inviterId = ''alice'', i_email = ''bob@example.com'',
                i_token = ''c0ffee'', i_role = ''editor'', i_status = ''pending'',
                i_createdAt = Some 0\<rparr>"
  let ?src = "\<lparr>l_id = 1, l_userId = ''alice'', l_name = ''Groceries'', l_slug = ''groceries'',
                l_position = 0\<rparr>"
  have f: "findUnique_invite ''c0ffee'' demo_store = Some ?iv"
    by code_simp
  have g: "getUserId bob_request = Some ''bob''"
    by code_simp
  have l: "findUnique_list (i_listId ?iv) demo_store = Some ?src"
    by code_simp
  have c: "currentEmail_of bob_request = ''bob@example.com''"
    by code_simp
  have i: "invitedEmail_of ?iv = ''bob@example.com''"
    by code_simp
  have s: "map i_status (invites (update_invite_status 1 ''revoked'' demo_store)) = [''revoked'']"
    by code_simp
  have "share_accept (31 * 24 * 60 * 60 * 1000) no_fault bob_request ''c0ffee'' demo_store
       = ((410, ErrorPage ''Invitation expired''),
          update_invite_status (i_id ?iv) ''revoked'' demo_store)"
    using old_invite_is_expired [where token = "''c0ffee''" and d = demo_store and invite = ?iv
        and req = bob_request and userId = "''bob''" and sourceList = ?src and createdAt = 0
        and now = "31 * 24 * 60 * 60 * 1000" and fault = no_fault] f g l c i
    by simp
  with f g l c s show ?thesis by simp
qed

text \<open>
  C7. A redemption of a pending invite, whose source list exists, by a signed-in caller
  whose email (lower-cased and trimmed) differs from the invite's email (lower-cased and
  trimmed) is answered 403, the store is unchanged, the invite is still pending, and a
  later redemption by an account that passes the checks succeeds.
\<close>

theorem wrong_account_is_forbidden:
  assumes "token \<noteq> ''''"
    and "findUnique_invite token d = Some invite"
    and "i_status invite = ''pending''"
    and "getUserId req = Some userId"
    and "findUnique_list (i_listId invite) d = Some sourceList"
    and "currentEmail_of req \<noteq> invitedEmail_of invite"
  shows "share_accept now fault req token d
           = ((403, ErrorPage ''Sign in with the invited email''), d)
       \<and> findUnique_invite token (snd (share_accept now fault req token d)) = Some invite
       \<and> (\<forall>later right userId'.
             accept_checks later right token d invite userId' sourceList \<longrightarrow>
             fst (fst (share_accept later no_fault right token
                         (snd (share_accept now fault req token d)))) = 200)"
proof -
  have r: "share_accept now fault req token d
           = ((403, ErrorPage ''Sign in with the invited email''), d)"
    using assms by (simp add: share_accept_def Let_def renderInviteError_def)
  show ?thesis
    using assms(2) by (simp add: r share_accept_no_fault)
qed

theorem wrong_account_is_forbidden_witness:
  "''c0ffee'' \<noteq> ''''
   \<and> findUnique_invite ''c0ffee'' demo_store
       = Some \<lparr>i_id = 1, i_listId = 1, i_inviterId = ''alice'', i_email = ''bob@example.com'',
                i_token = ''c0ffee'', i_role = ''editor'', i_status = ''pending'',
                i_createdAt = Some 0\<rparr>
   \<and> getUserId carol_request = Some ''carol''
   \<and> findUnique_list 1 demo_store
       = Some \<lparr>l_id = 1, l_userId = ''alice'', l_name = ''Groceries'', l_slug = ''groceries'',
                l_position = 0\<rparr>
   \<and> currentEmail_of carol_request = ''carol@example.com''
   \<and> share_accept 1000 no_fault carol_request ''c0ffee'' demo_store
       = ((403, ErrorPage ''Sign in with the invited email''), demo_store)
   \<and> fst (fst (share_accept 2000 no_fault bob_request ''c0ffee''
        (snd (share_accept 1000 no_fault carol_request ''c0ffee'' demo_store)))) = 200"
proof -
  let ?iv = "\<lparr>i_id = 1, i_listId = 1, i_inviterId = ''alice'', i_email = ''bob@example.com'',
                i_token = ''c0ffee'', i_role = ''editor'', i_status = ''pending'',
                i_createdAt = Some 0\<rparr>"
  let ?src = "\<lparr>l_id = 1, l_userId = ''alice'', l_name = ''Groceries'', l_slug = ''groceries'',
                l_position = 0\<rparr>"
  have f: "findUnique_invite ''c0ffee'' demo_store = Some ?iv"
    by code_simp
  have g: "getUserId carol_request = Some ''carol''"
    by code_simp
  have l: "findUnique_list (i_listId ?iv) demo_store = Some ?src"
    by code_simp
  have c: "currentEmail_of carol_request = ''carol@example.com''"
    by code_simp
  have i: "invitedEmail_of ?iv = ''bob@example.com''"
    by code_simp
  have k: "accept_checks 2000 bob_request ''c0ffee'' demo_store ?iv ''bob'' ?src"
    by code_simp
  have n: "currentEmail_of carol_request \<noteq> invitedEmail_of ?iv"
    by (simp add: c i)
  have t: "''c0ffee'' \<noteq> ''''" and p: "i_status ?iv = ''pending''"
    by simp_all
  from wrong_account_is_forbidden [OF t f p g l n, of 1000 no_fault] k
  have a: "share_accept 1000 no_fault carol_request ''c0ffee'' demo_store
       = ((403, ErrorPage ''Sign in with the invited email''), demo_store)"
    and b: "fst (fst (share_accept 2000 no_fault bob_request ''c0ffee''
        (snd (share_accept 1000 no_fault carol_request ''c0ffee'' demo_store)))) = 200"
    by blast+
  from f g l c a b show ?thesis by simp
qed

text \<open>
  C10. An invite without \<open>createdAt\<close> is exempt from the age rule: its redemption is never
  answered "Invitation expired", the outcome does not depend on the clock, the invite is
  not revoked while its source list exists, and when the other checks pass the clone
  goes ahead whatever the time of the request.
\<close>

theorem missing_createdAt_never_expires:
  assumes "findUnique_invite token d = Some invite"
    and "i_createdAt invite = None"
  shows "fst (share_accept now fault req token d) \<noteq> (410, ErrorPage ''Invitation expired'')
       \<and> share_accept now fault req token d = share_accept later fault req token d
       \<and> (findUnique_list (i_listId invite) d \<noteq> None \<and> i_status invite \<noteq> ''revoked'' \<longrightarrow>
            map_option i_status
              (findUnique_invite token (snd (share_accept now fault req token d)))
            \<noteq> Some ''revoked'')
       \<and> (token \<noteq> '''' \<and> i_status invite = ''pending'' \<and> getUserId req = Some userId
          \<and> findUnique_list (i_listId invite) d = Some sourceList
          \<and> currentEmail_of req \<noteq> '''' \<and> currentEmail_of req = invitedEmail_of invite \<longrightarrow>
            fst (fst (share_accept now no_fault req token d)) = 200)"
proof (intro conjI impI)
  have x: "\<not> expired t invite" for t
    using assms(2) by (simp add: expired_def)
  show "fst (share_accept now fault req token d) \<noteq> (410, ErrorPage ''Invitation expired'')"
    using assms(1) x [of now]
    by (auto simp: share_accept_def Let_def transaction_def renderInviteError_def
        split: option.splits sum.splits prod.splits)
  show "share_accept now fault req token d = share_accept later fault req token d"
    using assms(1) x [of now] x [of later]
    by (auto simp: share_accept_def Let_def split: option.splits)
  {
    assume h: "findUnique_list (i_listId invite) d \<noteq> None \<and> i_status invite \<noteq> ''revoked''"
    from share_accept_invites [OF assms(1) _ x [of now], of fault req] h
    have "findUnique_invite token (snd (share_accept now fault req token d)) = Some invite
        \<or> findUnique_invite token (snd (share_accept now fault req token d))
            = Some (invite\<lparr>i_status := ''accepted''\<rparr>)"
      using assms(1) findUnique_invite_update [OF assms(1), of "''accepted''"]
        findUnique_invite_cong [of "snd (share_accept now fault req token d)"
          "update_invite_status (i_id invite) ''accepted'' d" token]
      by auto
    with h show "map_option i_status
              (findUnique_invite token (snd (share_accept now fault req token d)))
            \<noteq> Some ''revoked''"
      by auto
  }
  {
    assume h: "token \<noteq> '''' \<and> i_status invite = ''pending'' \<and> getUserId req = Some userId
          \<and> findUnique_list (i_listId invite) d = Some sourceList
          \<and> currentEmail_of req \<noteq> '''' \<and> currentEmail_of req = invitedEmail_of invite"
    then have "accept_checks now req token d invite userId sourceList"
      using assms(1) x [of now] by (auto simp: accept_checks_def)
    then show "fst (fst (share_accept now no_fault req token d)) = 200"
      by (rule share_accept_no_fault)
  }
qed

theorem missing_createdAt_never_expires_witness:
  "findUnique_invite ''c0ffee'' legacy_store
     = Some \<lparr>i_id = 1, i_listId = 1, i_inviterId = ''alice'', i_email = ''bob@example.com'',
              i_token = ''c0ffee'', i_role = ''editor'', i_status = ''pending'',
              i_createdAt = None\<rparr>
   \<and> findUnique_list 1 legacy_store
       = Some \<lparr>l_id = 1, l_userId = ''alice'', l_name = ''Groceries'', l_slug = ''groceries'',
                l_position = 0\<rparr>
   \<and> getUserId bob_request = Some ''bob''
   \<and> currentEmail_of bob_request = ''bob@example.com''
   \<and> fst (share_accept (3650 * 24 * 60 * 60 * 1000) (fault_at CreateList) bob_request
            ''c0ffee'' legacy_store) \<noteq> (410, ErrorPage ''Invitation expired'')
   \<and> map_option i_status (findUnique_invite ''c0ffee''
        (snd (share_accept (3650 * 24 * 60 * 60 * 1000) (fault_at CreateList) bob_request
            ''c0ffee'' legacy_store))) \<noteq> Some ''revoked''
   \<and> fst (fst (share_accept (3650 * 24 * 60 * 60 * 1000) no_fault bob_request
            ''c0ffee'' legacy_store)) = 200"
proof -
  let ?iv = "\<lparr>i_id = 1, i_listId = 1, i_inviterId = ''alice'', i_email = ''bob@example.com'',
              i_token = ''c0ffee'', i_role = ''editor'', i_status = ''pending'',
              i_createdAt = None\<rparr>"
  let ?src = "\<lparr>l_id = 1, l_userId = ''alice'', l_name = ''Groceries'', l_slug = ''groceries'',
                l_position = 0\<rparr>"
  have f: "findUnique_invite ''c0ffee'' legacy_store = Some ?iv"
    by code_simp
  have g: "getUserId bob_request = Some ''bob''"
    by code_simp
  have l: "findUnique_list (i_listId ?iv) legacy_store = Some ?src"
    by code_simp
  have c: "currentEmail_of bob_request = ''bob@example.com''"
    by code_simp
  have i: "invitedEmail_of ?iv = ''bob@example.com''"
    by code_simp
  have n: "i_createdAt ?iv = None"
    by simp
  from missing_createdAt_never_expires [OF f n, where now = "3650 * 24 * 60 * 60 * 1000"
      and fault = "fault_at CreateList" and req = bob_request and userId = "''bob''"
      and sourceList = ?src] g l c i
  have "fst (share_accept (3650 * 24 * 60 * 60 * 1000) (fault_at CreateList) bob_request
            ''c0ffee'' legacy_store) \<noteq> (410, ErrorPage ''Invitation expired'')"
    and "map_option i_status (findUnique_invite ''c0ffee''
        (snd (share_accept (3650 * 24 * 60 * 60 * 1000) (fault_at CreateList) bob_request
            ''c0ffee'' legacy_store))) \<noteq> Some ''revoked''"
    and "fst (fst (share_accept (3650 * 24 * 60 * 60 * 1000) no_fault bob_request
            ''c0ffee'' legacy_store)) = 200"
    by simp_all
  with f g l c show ?thesis by simp
qed

text \<open>
  C8. A share request by a signed-in caller for a list the caller owns, with an email that
  passes the validation, when no mailer is configured: the answer is 501 "Email delivery
  is not configured", and the store the request leaves holds the invite it created, with
  status pending.
\<close>

theorem share_without_mailer:
  assumes "getUserId req = Some userId"
    and "trim email \<noteq> ''''"
    and "simpleEmail (trim email)"
    and "findFirst_list i userId d = Some list"
    and "sendMailFn_of mailer = None"
  shows "lists_share now token mailer baseUrl req (Some i) email d
           = ((501, ErrorBody ''Email delivery is not configured''),
              d\<lparr>invites := invites d @
                   [\<lparr>i_id = next_invite_id d, i_listId = i, i_inviterId = userId,
                     i_email = trim email, i_token = token, i_role = ''editor'',
                     i_status = ''pending'', i_createdAt = Some now\<rparr>],
                 next_invite_id := next_invite_id d + 1\<rparr>)"
  using assms by (simp add: lists_share_def Let_def create_invite_def)

theorem share_without_mailer_witness:
  "getUserId alice_request = Some ''alice''
   \<and> trim '' bob@example.com '' = ''bob@example.com''
   \<and> simpleEmail ''bob@example.com''
   \<and> findFirst_list 1 ''alice'' demo_store
       = Some \<lparr>l_id = 1, l_userId = ''alice'', l_name = ''Groceries'', l_slug = ''groceries'',
                l_position = 0\<rparr>
   \<and> sendMailFn_of NoMailer = None
   \<and> fst (lists_share 7 ''beef'' NoMailer ''https://host'' alice_request (Some 1)
             '' bob@example.com '' demo_store)
       = (501, ErrorBody ''Email delivery is not configured'')
   \<and> map i_status (invites (snd (lists_share 7 ''beef'' NoMailer ''https://host'' alice_request
        (Some 1) '' bob@example.com '' demo_store))) = [''pending'', ''pending'']
   \<and> map i_token (invites (snd (lists_share 7 ''beef'' NoMailer ''https://host'' alice_request
        (Some 1) '' bob@example.com '' demo_store))) = [''c0ffee'', ''beef'']"
proof -
  let ?src = "\<lparr>l_id = 1, l_userId = ''alice'', l_name = ''Groceries'', l_slug = ''groceries'',
                l_position = 0\<rparr>"
  have g: "getUserId alice_request = Some ''alice''"
    by code_simp
  have t: "trim '' bob@example.com '' = ''bob@example.com''"
    by code_simp
  have e: "simpleEmail ''bob@example.com''"
    by code_simp
  have l: "findFirst_list 1 ''alice'' demo_store = Some ?src"
    by code_simp
  have m: "sendMailFn_of NoMailer = None"
    by (simp add: sendMailFn_of_def)
  have i: "map i_status (invites demo_store) = [''pending'']"
     "map i_token (invites demo_store) = [''c0ffee'']"
    by code_simp+
  from share_without_mailer [where req = alice_request and userId = "''alice''"
      and email = "'' bob@example.com ''" and i = 1 and d = demo_store and list = ?src
      and mailer = NoMailer and now = 7 and token = "''beef''" and baseUrl = "''https://host''"]
    g t e l m
  have r: "lists_share 7 ''beef'' NoMailer ''https://host'' alice_request (Some 1)
             '' bob@example.com '' demo_store
       = ((501, ErrorBody ''Email delivery is not configured''),
          demo_store\<lparr>invites := invites demo_store @
               [\<lparr>i_id = next_invite_id demo_store, i_listId = 1, i_inviterId = ''alice'',
                 i_email = ''bob@example.com'', i_token = ''beef'', i_role = ''editor'',
                 i_status = ''pending'', i_createdAt = Some 7\<rparr>],
             next_invite_id := next_invite_id demo_store + 1\<rparr>)"
    by simp
  from g t e l m i show ?thesis
    by (simp add: r)
qed

text \<open>
  C5. In every store the handlers can reach from the empty store, every operation (any
  handler of the two routers, with any request, clock, mailer and gateway failures) keeps
  every invite, and leaves its status unchanged or moves it from pending to accepted or
  from pending to revoked; so a status that is accepted or revoked never changes. An
  invite of the resulting store that was not there before has status pending. Ids stay
  unique, so the invite after the step is determined by its id.
\<close>

theorem invite_status_moves_forward:
  assumes "reachable d"
  shows "(\<forall>i\<in>set (invites d). \<exists>i'\<in>set (invites (snd (step operation d))).
            i_id i' = i_id i
          \<and> (i_status i' = i_status i
             \<or> (i_status i = ''pending''
                \<and> (i_status i' = ''accepted'' \<or> i_status i' = ''revoked''))))
       \<and> (\<forall>i'\<in>set (invites (snd (step operation d))).
            i_id i' \<in> i_id ` set (invites d) \<or> i_status i' = ''pending'')
       \<and> distinct (map i_id (invites (snd (step operation d))))"
proof -
  let ?d' = "snd (step operation d)"
  have ok: "inv_ok d" by (rule reachable_inv_ok [OF assms])
  have e: "invite_effect d ?d'" by (rule step_effect)
  have "inv_ok ?d'" by (rule inv_ok_effect [OF ok e])
  then have dist: "distinct (map i_id (invites ?d'))" by (simp add: inv_ok_def)
  from e have "(\<forall>i\<in>set (invites d). \<exists>i'\<in>set (invites ?d').
            i_id i' = i_id i
          \<and> (i_status i' = i_status i
             \<or> (i_status i = ''pending''
                \<and> (i_status i' = ''accepted'' \<or> i_status i' = ''revoked''))))
       \<and> (\<forall>i'\<in>set (invites ?d').
            i_id i' \<in> i_id ` set (invites d) \<or> i_status i' = ''pending'')"
  proof (cases rule: invite_effect_cases)
    case same
    then show ?thesis by auto
  next
    case (created new)
    then show ?thesis by auto
  next
    case (updated invite s)
    from ok updated(1,2,3) have p: "i_status invite = ''pending''"
      by (auto simp: inv_ok_def)
    have same: "i = invite" if "i \<in> set (invites d)" "i_id i = i_id invite" for i
      using inv_ok_same_id [OF ok that(1) updated(1) that(2)] .
    let ?f = "\<lambda>i. if i_id i = i_id invite then i\<lparr>i_status := s\<rparr> else i"
    have img: "set (invites ?d') = ?f ` set (invites d)"
      by (simp add: updated(5) update_invite_status_def)
    have fwd: "i_id (?f i) = i_id i
          \<and> (i_status (?f i) = i_status i
             \<or> (i_status i = ''pending''
                \<and> (i_status (?f i) = ''accepted'' \<or> i_status (?f i) = ''revoked'')))"
      if "i \<in> set (invites d)" for i
      using same [OF that] p updated(4) by auto
    show ?thesis
    proof (intro conjI ballI)
      fix i
      assume i: "i \<in> set (invites d)"
      then have "?f i \<in> set (invites ?d')"
        unfolding img by (rule imageI)
      with fwd [OF i] show "\<exists>i'\<in>set (invites ?d').
            i_id i' = i_id i
          \<and> (i_status i' = i_status i
             \<or> (i_status i = ''pending''
                \<and> (i_status i' = ''accepted'' \<or> i_status i' = ''revoked'')))"
        by (rule_tac x = "?f i" in bexI)
    next
      fix i'
      assume "i' \<in> set (invites ?d')"
      then obtain i where i: "i \<in> set (invites d)" and e: "i' = ?f i"
        unfolding img by blast
      from fwd [OF i] have "i_id i' = i_id i"
        unfolding e by blast
      with i show "i_id i' \<in> i_id ` set (invites d) \<or> i_status i' = ''pending''"
        by force
    qed
  qed
  with dist show ?thesis by blast
qed

theorem invite_status_moves_forward_witness:
  "reachable shared_store
   \<and> map i_status (invites shared_store) = [''pending'']
   \<and> map i_status (invites (snd (step (ShareAccept 1000 no_fault bob_request ''c0ffee'')
        shared_store))) = [''accepted'']
   \<and> map i_status (invites (snd (step (ShareAccept 2000 no_fault bob_request ''c0ffee'')
        (snd (step (ShareAccept 1000 no_fault bob_request ''c0ffee'') shared_store)))))
       = [''accepted'']
   \<and> distinct (map i_id (invites (snd (step (ShareAccept 1000 no_fault bob_request ''c0ffee'')
        shared_store))))"
proof -
  have r: "reachable shared_store"
    unfolding shared_store_def by (intro reachable_step reachable_empty)
  have a: "map i_status (invites shared_store) = [''pending'']"
    by code_simp
  have b: "map i_status (invites (snd (step (ShareAccept 1000 no_fault bob_request ''c0ffee'')
        shared_store))) = [''accepted'']"
    by code_simp
  have c: "map i_status (invites (snd (step (ShareAccept 2000 no_fault bob_request ''c0ffee'')
        (snd (step (ShareAccept 1000 no_fault bob_request ''c0ffee'') shared_store)))))
       = [''accepted'']"
    by code_simp
  from invite_status_moves_forward [OF r, of "ShareAccept 1000 no_fault bob_request ''c0ffee''"]
  have "distinct (map i_id (invites (snd (step (ShareAccept 1000 no_fault bob_request
        ''c0ffee'') shared_store))))"
    by blast
  with r a b c show ?thesis by blast
qed

text \<open>
  C3, as amended. For every accepted redemption the slug of the cloned list is the first
  free candidate, where the candidates are the base slug followed by the base slug with
  \<open>-2\<close>, \<open>-3\<close>, \<dots> appended, free means not the slug of a list of the recipient, and
  the base slug is the slug of the source list or, when that is empty, the name in lower
  case with white space mapped to hyphens, every character outside \<open>[a-z0-9-]\<close> replaced
  by a hyphen, repeated hyphens collapsed and the hyphens at both ends trimmed, or
  \<open>list\<close> when nothing is left.
\<close>

theorem cloned_slug_is_first_free:
  assumes "share_accept now fault req token d = ((200, b), d')"
    and "findUnique_invite token d = Some invite"
    and "findUnique_list (i_listId invite) d = Some sourceList"
    and "getUserId req = Some userId"
  shows "\<exists>createdList n.
           b = SharePage ''Invitation accepted'' (Some createdList)
         \<and> l_slug createdList = candidate (amended_baseSlug sourceList) n
         \<and> candidate (amended_baseSlug sourceList) n \<notin> set (user_slugs userId d)
         \<and> (\<forall>k<n. candidate (amended_baseSlug sourceList) k \<in> set (user_slugs userId d))"
proof -
  from share_accept_200D [OF assms(1)] obtain iv u src createdList where
    chk: "accept_checks now req token d iv u src" and
    tx: "clone_tx fault u src (findMany_tasks_of_list (l_id src) d)
             (baseSlug_of src) iv d = Inr (createdList, d')" and
    b: "b = SharePage ''Invitation accepted'' (Some createdList)"
    by blast
  from chk assms(2,3,4) have e: "iv = invite" "u = userId" "src = sourceList"
    by (simp_all add: accept_checks_def)
  let ?b = "amended_baseSlug sourceList"
  from clone_tx_result [OF tx]
  have s: "l_slug createdList = uniqueSlug_loop d userId ?b ?b 2"
    unfolding e baseSlug_of_amended by blast
  from uniqueSlug_loop_first_free [of ?b ?b 0 2 d userId]
  obtain m where "uniqueSlug_loop d userId ?b ?b 2 = candidate ?b m"
    "candidate ?b m \<notin> set (user_slugs userId d)"
    "\<forall>k<m. candidate ?b k \<in> set (user_slugs userId d)"
    by auto
  with b s show ?thesis by auto
qed

text \<open>
  C3 as stated fails: the code replaces a character outside \<open>[a-z0-9-]\<close> by a hyphen; it
  does not strip it. A source list named \<open>Q&A\<close> with an empty slug is cloned with the slug
  \<open>q-a\<close>, where the procedure of the claim gives \<open>qa\<close>.
\<close>

theorem strip_counterexample:
  "map_option l_slug (created_list_of
     (fst (share_accept 1000 no_fault bob_request ''c0ffee'' qa_store))) = Some ''q-a''
   \<and> fst (fst (share_accept 1000 no_fault bob_request ''c0ffee'' qa_store)) = 200
   \<and> spec_cloned_slug qa_store ''bob''
       \<lparr>l_id = 1, l_userId = ''alice'', l_name = ''Q&A'', l_slug = '''', l_position = 0\<rparr>
      = ''qa''"
  by code_simp

theorem cloned_slug_is_first_free_witness:
  "fst (fst (share_accept 1000 no_fault bob_request ''c0ffee'' demo_store)) = 200
   \<and> findUnique_invite ''c0ffee'' demo_store
       = Some \<lparr>i_id = 1, i_listId = 1, i_inviterId = ''alice'', i_email = ''bob@example.com'',
                i_token = ''c0ffee'', i_role = ''editor'', i_status = ''pending'',
                i_createdAt = Some 0\<rparr>
   \<and> findUnique_list 1 demo_store
       = Some \<lparr>l_id = 1, l_userId = ''alice'', l_name = ''Groceries'', l_slug = ''groceries'',
                l_position = 0\<rparr>
   \<and> getUserId bob_request = Some ''bob''
   \<and> user_slugs ''bob'' demo_store = [''groceries'']
   \<and> map_option l_slug (created_list_of
        (fst (share_accept 1000 no_fault bob_request ''c0ffee'' demo_store)))
       = Some ''groceries-2''
   \<and> (\<exists>n. ''groceries-2''
             = candidate (amended_baseSlug \<lparr>l_id = 1, l_userId = ''alice'',
                 l_name = ''Groceries'', l_slug = ''groceries'', l_position = 0\<rparr>) n)"
proof -
  let ?R = "share_accept 1000 no_fault bob_request ''c0ffee'' demo_store"
  let ?iv = "\<lparr>i_id = 1, i_listId = 1, i_inviterId = ''alice'', i_email = ''bob@example.com'',
                i_token = ''c0ffee'', i_role = ''editor'', i_status = ''pending'',
                i_createdAt = Some 0\<rparr>"
  let ?src = "\<lparr>l_id = 1, l_userId = ''alice'', l_name = ''Groceries'', l_slug = ''groceries'',
                l_position = 0\<rparr>"
  have h: "fst (fst ?R) = 200"
    by code_simp
  then have e: "?R = ((200, snd (fst ?R)), snd ?R)"
    by (metis prod.collapse)
  have f: "findUnique_invite ''c0ffee'' demo_store = Some ?iv"
    by code_simp
  have l: "findUnique_list (i_listId ?iv) demo_store = Some ?src"
    by code_simp
  have g: "getUserId bob_request = Some ''bob''"
    by code_simp
  have u: "user_slugs ''bob'' demo_store = [''groceries'']"
    by code_simp
  have c: "map_option l_slug (created_list_of (fst ?R)) = Some ''groceries-2''"
    by code_simp
  from cloned_slug_is_first_free [OF e f l g] obtain createdList n where
    r: "snd (fst ?R) = SharePage ''Invitation accepted'' (Some createdList)"
       "l_slug createdList = candidate (amended_baseSlug ?src) n"
    by blast
  from c r(1) have "l_slug createdList = ''groceries-2''"
    by (simp add: created_list_of_def)
  with r(2) have "\<exists>n. ''groceries-2'' = candidate (amended_baseSlug ?src) n"
    by auto
  with h f l g u c show ?thesis by simp
qed

text \<open>
  C9. The claim is about what a reorder request does; the code does not let one reach the
  reorder handlers. Both routers register the update route \<open>:id\<close> before the route
  \<open>order\<close> of the same method, so no method and path is ever dispatched to a reorder
  handler, and a \<^verbatim>\<open>PUT\<close> to \<^verbatim>\<open>/lists/order\<close> or \<^verbatim>\<open>/order\<close> (and to their copies under
  \<^verbatim>\<open>/api/tasks\<close>) runs the update handler with the id \<open>order\<close>, which is no number: the
  answer is 400 "Invalid id" (401 without a caller) and the store is unchanged, whatever
  the sequence of ids in the body. In the witness the caller owns lists 1, 2, 3 at
  positions 0, 1, 2 and asks for the order 3, 1, 2.
\<close>

theorem reorder_request_is_refused:
  assumes "Number_of ''order'' = None"
    and "h_method h = PUT"
  shows "dispatch api_routes m path \<noteq> Some (RListsOrder, ps)
       \<and> dispatch api_routes m path \<noteq> Some (RTasksOrder, ps)
       \<and> dispatch web_routes m path \<noteq> Some (RListsOrder, ps)
       \<and> dispatch web_routes m path \<noteq> Some (RTasksOrder, ps)
       \<and> (h_path h = [''lists'', ''order''] \<or> h_path h = [''order''] \<longrightarrow>
            (\<exists>r. serve api_routes Number_of e h d = Some (r, d)
               \<and> (r = unauthorized \<or> r = (400, ErrorBody ''Invalid id''))))
       \<and> (h_path h = [''api'', ''tasks'', ''lists'', ''order'']
          \<or> h_path h = [''api'', ''tasks'', ''order''] \<longrightarrow>
            (\<exists>r. serve web_routes Number_of e h d = Some (r, d)
               \<and> (r = unauthorized \<or> r = (400, ErrorBody ''Invalid id''))))"
proof -
  have l: "lists_put (h_auth h) None n s d = (unauthorized, d)
         \<or> lists_put (h_auth h) None n s d = ((400, ErrorBody ''Invalid id''), d)" for n s
    by (simp add: lists_put_def split: option.splits)
  have t: "tasks_put (h_auth h) None b d = (unauthorized, d)
         \<or> tasks_put (h_auth h) None b d = ((400, ErrorBody ''Invalid id''), d)" for b
    by (simp add: tasks_put_def split: option.splits)
  have "(h_path h = [''lists'', ''order''] \<or> h_path h = [''order''] \<longrightarrow>
            (\<exists>r. serve api_routes Number_of e h d = Some (r, d)
               \<and> (r = unauthorized \<or> r = (400, ErrorBody ''Invalid id''))))
       \<and> (h_path h = [''api'', ''tasks'', ''lists'', ''order'']
          \<or> h_path h = [''api'', ''tasks'', ''order''] \<longrightarrow>
            (\<exists>r. serve web_routes Number_of e h d = Some (r, d)
               \<and> (r = unauthorized \<or> r = (400, ErrorBody ''Invalid id''))))"
    using assms order_paths_dispatch l [of "h_name h" "h_slug h"] t [of "h_update h"]
    by (auto simp: serve_def first_param_def unauthorized_def)
  with api_order_routes_never_chosen [of m path ps] web_order_routes_never_chosen [of m path ps]
  show ?thesis by blast
qed


theorem reorder_request_is_refused_witness:
  "decimal_Number ''order'' = None
   \<and> h_method (reorder_request [''lists'', ''order'']) = PUT
   \<and> h_listOrder (reorder_request [''lists'', ''order'']) = Some [Some 3, Some 1, Some 2]
   \<and> map l_id (findMany_lists ''alice'' board_store) = [1, 2, 3]
   \<and> map l_position (findMany_lists ''alice'' board_store) = [0, 1, 2]
   \<and> serve api_routes decimal_Number demo_env (reorder_request [''lists'', ''order''])
        board_store = Some ((400, ErrorBody ''Invalid id''), board_store)
   \<and> serve api_routes decimal_Number demo_env (reorder_request [''order''])
        board_store = Some ((400, ErrorBody ''Invalid id''), board_store)
   \<and> serve web_routes decimal_Number demo_env
        (reorder_request [''api'', ''tasks'', ''lists'', ''order''])
        board_store = Some ((400, ErrorBody ''Invalid id''), board_store)"
proof -
  let ?api = "\<lambda>p. serve api_routes decimal_Number demo_env (reorder_request p) board_store"
  let ?web = "\<lambda>p. serve web_routes decimal_Number demo_env (reorder_request p) board_store"
  have n: "decimal_Number ''order'' = None"
    by code_simp
  have m: "h_method (reorder_request p) = PUT" and p: "h_path (reorder_request p) = p" for p
    by (simp_all add: reorder_request_def)
  have o: "h_listOrder (reorder_request [''lists'', ''order'']) = Some [Some 3, Some 1, Some 2]"
    by (simp add: reorder_request_def)
  have l: "map l_id (findMany_lists ''alice'' board_store) = [1, 2, 3]"
    "map l_position (findMany_lists ''alice'' board_store) = [0, 1, 2]"
    by code_simp+
  have c: "map_option (fst \<circ> fst) (?api [''lists'', ''order'']) = Some 400"
    "map_option (fst \<circ> fst) (?api [''order'']) = Some 400"
    "map_option (fst \<circ> fst) (?web [''api'', ''tasks'', ''lists'', ''order'']) = Some 400"
    by code_simp+
  have r: "(q = [''lists'', ''order''] \<or> q = [''order''] \<longrightarrow>
            (\<exists>r. ?api q = Some (r, board_store)
               \<and> (r = unauthorized \<or> r = (400, ErrorBody ''Invalid id''))))
       \<and> (q = [''api'', ''tasks'', ''lists'', ''order'']
          \<or> q = [''api'', ''tasks'', ''order''] \<longrightarrow>
            (\<exists>r. ?web q = Some (r, board_store)
               \<and> (r = unauthorized \<or> r = (400, ErrorBody ''Invalid id''))))" for q
    using reorder_request_is_refused [where Number_of = decimal_Number
        and h = "reorder_request q" and e = demo_env and d = board_store, OF n m [of q]]
    by (simp add: p)
  from r [of "[''lists'', ''order'']"] c(1)
  have a: "?api [''lists'', ''order''] = Some ((400, ErrorBody ''Invalid id''), board_store)"
    by (auto simp: unauthorized_def)
  from r [of "[''order'']"] c(2)
  have b: "?api [''order''] = Some ((400, ErrorBody ''Invalid id''), board_store)"
    by (auto simp: unauthorized_def)
  from r [of "[''api'', ''tasks'', ''lists'', ''order'']"] c(3)
  have w: "?web [''api'', ''tasks'', ''lists'', ''order'']
           = Some ((400, ErrorBody ''Invalid id''), board_store)"
    by (auto simp: unauthorized_def)
  from n m o l a b w show ?thesis by simp
qed

end
